theory Spec2Isabelle
  imports Complex_Main
begin

section \<open>JavaScript numbers\<close>

text \<open>
  A JavaScript number is an IEEE binary64 value. The numbers of this program are modelled
  as reals, and every arithmetic result goes through a rounding function \<open>rnd\<close>
  (round-to-nearest of the run time). Nothing is assumed about \<open>rnd\<close> in the definitions;
  the theorems that need it assume \<open>rounding rnd\<close>: rounding is monotone and leaves the
  constants of the program that binary64 represents exactly alone. The literal \<open>0.1\<close> is not
  such a constant: it denotes the double next to one tenth, \<open>lit_0_1 rnd\<close>.
\<close>

definition js_add :: "(real \<Rightarrow> real) \<Rightarrow> real \<Rightarrow> real \<Rightarrow> real" where
  "js_add rnd a b = rnd (a + b)"

definition js_sub :: "(real \<Rightarrow> real) \<Rightarrow> real \<Rightarrow> real \<Rightarrow> real" where
  "js_sub rnd a b = rnd (a - b)"

definition js_mul :: "(real \<Rightarrow> real) \<Rightarrow> real \<Rightarrow> real \<Rightarrow> real" where
  "js_mul rnd a b = rnd (a * b)"

definition js_div :: "(real \<Rightarrow> real) \<Rightarrow> real \<Rightarrow> real \<Rightarrow> real" where
  "js_div rnd a b = rnd (a / b)"

definition lit_0_1 :: "(real \<Rightarrow> real) \<Rightarrow> real" where
  "lit_0_1 rnd = rnd (1 / 10)"

definition rounding :: "(real \<Rightarrow> real) \<Rightarrow> bool" where
  "rounding rnd \<longleftrightarrow>
     mono rnd \<and> rnd 0 = 0 \<and> rnd 1 = 1 \<and> rnd 5 = 5 \<and> rnd 10 = 10 \<and> rnd 200 = 200 \<and>
     rnd (rnd (1 / 10)) = rnd (1 / 10)"

section \<open>The messages of \<open>src/lib/mqtt.ts\<close>\<close>

datatype button = ButtonA | ButtonB

datatype action =
    play | pause | seek_forward | seek_backward
  | zoom_in | zoom_out | zoom_reset
  | move_up | move_down | move_left | move_right | move_reset
  | scroll_stop | scroll_speed_up | scroll_speed_down

text \<open>
  \<open>interface MediaControlMessage\<close>. The optional field \<open>value\<close> is \<open>val\<close> here, and
  \<open>None\<close> when the field is absent.
\<close>

record MediaControlMessage =
  button :: button
  action :: action
  val :: "real option"
  timestamp :: real

section \<open>The display page: per-button media state\<close>

datatype direction = Down | Up

record position =
  x_pos :: real
  y_pos :: real

record MediaState =
  zoomLevel :: real
  isPlaying :: bool
  position :: position
  scrollSpeed :: real
  isScrolling :: bool
  scrollDirection :: direction

text \<open>The initial value of the \<open>mediaState\<close> hook: the same record under both keys.\<close>

definition initialMedia :: MediaState where
  "initialMedia =
     \<lparr> zoomLevel = 1, isPlaying = False, position = \<lparr> x_pos = 0, y_pos = 0 \<rparr>,
       scrollSpeed = 50, isScrolling = False, scrollDirection = Down \<rparr>"

definition initialMediaState :: "button \<Rightarrow> MediaState" where
  "initialMediaState = (\<lambda>b. initialMedia)"

text \<open>
  What the reducer does besides computing the next state: calls on the video element behind
  \<open>videoRef\<close> and on the animation frame behind \<open>rafRef\<close>.
\<close>

datatype effect =
    VideoPlay
  | VideoPause
  | VideoSeekForward real
  | VideoSeekBackward real
  | CancelAnimationFrame

text \<open>
  What the closure of \<open>handleMediaControlMessage\<close> reads from the component: the selected
  button, whether \<open>videoRef.current\<close> is set, whether \<open>rafRef.current\<close> is set.
\<close>

record env =
  selected :: button
  hasVideo :: bool
  hasFrame :: bool

text \<open>\<open>value || 10\<close>: an absent value and the value 0 both give 10.\<close>

definition value_or_10 :: "real option \<Rightarrow> real" where
  "value_or_10 v = (case v of None \<Rightarrow> 10 | Some r \<Rightarrow> if r = 0 then 10 else r)"

text \<open>
  \<open>handleMediaControlMessage\<close>: the updater passed to \<open>setMediaState\<close>. It copies the
  previous state and replaces the entry of the message's button, by the action.
\<close>

definition handleMediaControlMessage ::
  "(real \<Rightarrow> real) \<Rightarrow> env \<Rightarrow> MediaControlMessage \<Rightarrow> (button \<Rightarrow> MediaState)
     \<Rightarrow> (button \<Rightarrow> MediaState) \<times> effect list" where
  "handleMediaControlMessage rnd e controlData prev =
     (let b = button controlData; v = val controlData; newState = prev; old = newState b;
          onVideo = (b = selected e \<and> hasVideo e)
      in case action controlData of
           play \<Rightarrow>
             (newState(b := old\<lparr> isPlaying := True \<rparr>), if onVideo then [VideoPlay] else [])
         | pause \<Rightarrow>
             (newState(b := old\<lparr> isPlaying := False \<rparr>), if onVideo then [VideoPause] else [])
         | seek_forward \<Rightarrow>
             (newState, if onVideo then [VideoSeekForward (value_or_10 v)] else [])
         | seek_backward \<Rightarrow>
             (newState, if onVideo then [VideoSeekBackward (value_or_10 v)] else [])
         | zoom_in \<Rightarrow>
             (newState(b := old\<lparr> zoomLevel := min (js_mul rnd (zoomLevel old) 1.25) 5 \<rparr>), [])
         | zoom_out \<Rightarrow>
             (newState(b := old\<lparr> zoomLevel := max (js_div rnd (zoomLevel old) 1.25) (lit_0_1 rnd) \<rparr>), [])
         | zoom_reset \<Rightarrow>
             (newState(b := old\<lparr> zoomLevel := 1 \<rparr>), [])
         | move_up \<Rightarrow>
             (newState(b := old\<lparr> position :=
                (position old)\<lparr> y_pos := js_sub rnd (y_pos (position old)) 50 \<rparr> \<rparr>), [])
         | move_down \<Rightarrow>
             (newState(b := old\<lparr> position :=
                (position old)\<lparr> y_pos := js_add rnd (y_pos (position old)) 50 \<rparr> \<rparr>), [])
         | move_left \<Rightarrow>
             (newState(b := old\<lparr> position :=
                (position old)\<lparr> x_pos := js_sub rnd (x_pos (position old)) 50 \<rparr> \<rparr>), [])
         | move_right \<Rightarrow>
             (newState(b := old\<lparr> position :=
                (position old)\<lparr> x_pos := js_add rnd (x_pos (position old)) 50 \<rparr> \<rparr>), [])
         | move_reset \<Rightarrow>
             (newState(b := old\<lparr> position := \<lparr> x_pos = 0, y_pos = 0 \<rparr> \<rparr>), [])
         | scroll_stop \<Rightarrow>
             (newState(b := old\<lparr> isScrolling := False \<rparr>),
              if hasFrame e then [CancelAnimationFrame] else [])
         | scroll_speed_up \<Rightarrow>
             (newState(b := old\<lparr> scrollSpeed := min (js_add rnd (scrollSpeed old) 10) 200 \<rparr>), [])
         | scroll_speed_down \<Rightarrow>
             (newState(b := old\<lparr> scrollSpeed := max (js_sub rnd (scrollSpeed old) 10) 10 \<rparr>), []))"

text \<open>
  A sequence of control messages, each handled in the component environment of its moment,
  starting from a given media state.
\<close>

fun controls :: "(real \<Rightarrow> real) \<Rightarrow> (env \<times> MediaControlMessage) list
    \<Rightarrow> (button \<Rightarrow> MediaState) \<Rightarrow> (button \<Rightarrow> MediaState)" where
  "controls rnd [] st = st"
| "controls rnd ((e, m) # ms) st = controls rnd ms (fst (handleMediaControlMessage rnd e m st))"

section \<open>JavaScript values\<close>

text \<open>
  What \<open>JSON.parse\<close> returns and what reading a property of it gives. \<open>JUndefined\<close> is
  the value of a property that is not there; \<open>JSON.parse\<close> itself never returns it. An
  object is the list of its properties, each key once (of a key written twice in the text
  \<open>JSON.parse\<close> keeps the last value).
\<close>

datatype js_error = SyntaxError | TypeError

datatype jsvalue =
    JUndefined
  | JNull
  | JBool bool
  | JNum real
  | JStr string
  | JArr "jsvalue list"
  | JObj "(string \<times> jsvalue) list"

text \<open>The condition of an \<open>if\<close>, of \<open>&&\<close> and of \<open>||\<close>.\<close>

fun truthy :: "jsvalue \<Rightarrow> bool" where
  "truthy JUndefined = False"
| "truthy JNull = False"
| "truthy (JBool b) = b"
| "truthy (JNum r) = (r \<noteq> 0)"
| "truthy (JStr s) = (s \<noteq> [])"
| "truthy (JArr xs) = True"
| "truthy (JObj kvs) = True"

text \<open>
  \<open>data.name\<close> for the property names this program reads (\<open>button\<close>, \<open>action\<close>,
  \<open>value\<close>, \<open>activeButton\<close>, \<open>fileName\<close>, \<open>fileContent\<close>, \<open>fileType\<close>,
  \<open>mediaType\<close>): reading a property of \<open>null\<close> or \<open>undefined\<close> throws a TypeError,
  an object gives the value under the key, and a boolean, number, string or array has no
  property of these names.
\<close>

fun getProp :: "jsvalue \<Rightarrow> string \<Rightarrow> js_error + jsvalue" where
  "getProp JUndefined k = Inl TypeError"
| "getProp JNull k = Inl TypeError"
| "getProp (JObj kvs) k = Inr (case map_of kvs k of None \<Rightarrow> JUndefined | Some v \<Rightarrow> v)"
| "getProp v k = Inr JUndefined"

text \<open>The decimal numeral of an index: the key under which \<open>v[i]\<close> looks in an object.\<close>

fun decimal :: "nat \<Rightarrow> string" where
  "decimal n =
     (if n < 10 then [char_of (48 + n)] else decimal (n div 10) @ [char_of (48 + n mod 10)])"

text \<open>\<open>v[i]\<close>: an element of an array, a one-character string of a string.\<close>

fun getIndex :: "jsvalue \<Rightarrow> nat \<Rightarrow> js_error + jsvalue" where
  "getIndex JUndefined i = Inl TypeError"
| "getIndex JNull i = Inl TypeError"
| "getIndex (JArr xs) i = Inr (if i < length xs then xs ! i else JUndefined)"
| "getIndex (JStr s) i = Inr (if i < length s then JStr [s ! i] else JUndefined)"
| "getIndex (JObj kvs) i = getProp (JObj kvs) (decimal i)"
| "getIndex v i = Inr JUndefined"

section \<open>The display page\<close>

text \<open>
  The component state of \<open>Display\<close>. The two display pages of the repository share it: the
  plain one (\<open>src/unnamed/part_000\<close>) has no \<open>mediaState\<close> and no \<open>scrollRef\<close> and
  leaves those fields alone. \<open>buttonMedia\<close> holds the parsed payloads as they arrived, by
  key; an entry is always an object, so it is kept as the object's property list.
  \<open>console\<close> collects the calls of \<open>console.error\<close> in the handler, \<open>effects\<close> the
  calls on the video element and the animation frame.
\<close>

type_synonym jsobject = "(string \<times> jsvalue) list"

datatype log = ErrorParsingMessage js_error string

record display =
  isConnected_page :: bool
  buttonMedia :: "string \<rightharpoonup> jsobject"
  currentDisplay :: "jsobject option"
  selectedButton :: button
  status :: string
  mediaState :: "button \<Rightarrow> MediaState"
  scrollRef :: real
  console :: "log list"
  effects :: "effect list"

definition initialDisplay :: display where
  "initialDisplay =
     \<lparr> isConnected_page = False, buttonMedia = Map.empty, currentDisplay = None,
       selectedButton = ButtonA, status = ''Connecting to MQTT...'',
       mediaState = initialMediaState, scrollRef = 0, console = [], effects = [] \<rparr>"

text \<open>
  The result of a handler. Payloads are cast to the interfaces of \<open>src/lib/mqtt.ts\<close>
  unchecked; where a payload's \<open>button\<close>, \<open>activeButton\<close> or \<open>value\<close> is not of the
  declared type, what the untyped program does is outside this model: \<open>OutsideInterface\<close>.
\<close>

datatype 'a outcome = Done 'a | OutsideInterface

fun button_key :: "button \<Rightarrow> string" where
  "button_key ButtonA = ''A''"
| "button_key ButtonB = ''B''"

definition as_button :: "jsvalue \<Rightarrow> button option" where
  "as_button v =
     (if v = JStr ''A'' then Some ButtonA else if v = JStr ''B'' then Some ButtonB else None)"

definition as_action :: "jsvalue \<Rightarrow> action option" where
  "as_action v =
     (if v = JStr ''play'' then Some play
      else if v = JStr ''pause'' then Some pause
      else if v = JStr ''seek_forward'' then Some seek_forward
      else if v = JStr ''seek_backward'' then Some seek_backward
      else if v = JStr ''zoom_in'' then Some zoom_in
      else if v = JStr ''zoom_out'' then Some zoom_out
      else if v = JStr ''zoom_reset'' then Some zoom_reset
      else if v = JStr ''move_up'' then Some move_up
      else if v = JStr ''move_down'' then Some move_down
      else if v = JStr ''move_left'' then Some move_left
      else if v = JStr ''move_right'' then Some move_right
      else if v = JStr ''move_reset'' then Some move_reset
      else if v = JStr ''scroll_stop'' then Some scroll_stop
      else if v = JStr ''scroll_speed_up'' then Some scroll_speed_up
      else if v = JStr ''scroll_speed_down'' then Some scroll_speed_down
      else None)"

text \<open>The optional number \<open>value\<close>: absent, \<open>null\<close> or a number.\<close>

fun as_value :: "jsvalue \<Rightarrow> real option option" where
  "as_value JUndefined = Some None"
| "as_value JNull = Some None"
| "as_value (JNum r) = Some (Some r)"
| "as_value v = None"

text \<open>
  The \<open>catch\<close> of both handlers:
  \<open>console.error('Error parsing message:', error, 'Raw message:', message.substring(0, 100))\<close>.
\<close>

definition catch_error :: "js_error \<Rightarrow> string \<Rightarrow> display \<Rightarrow> display" where
  "catch_error err message st =
     st\<lparr> console := console st @ [ErrorParsingMessage err (take 100 message)] \<rparr>"

text \<open>The guard of the media branch: \<open>mediaData.button && mediaData.fileContent && mediaData.fileType\<close>.\<close>

definition media_guard :: "jsvalue \<Rightarrow> js_error + bool" where
  "media_guard mediaData =
     (case getProp mediaData ''button'' of
        Inl err \<Rightarrow> Inl err
      | Inr b \<Rightarrow>
          if \<not> truthy b then Inr False
          else (case getProp mediaData ''fileContent'' of
                  Inl err \<Rightarrow> Inl err
                | Inr c \<Rightarrow>
                    if \<not> truthy c then Inr False
                    else (case getProp mediaData ''fileType'' of
                            Inl err \<Rightarrow> Inl err
                          | Inr t \<Rightarrow> Inr (truthy t))))"

text \<open>
  \<open>setButtonMedia\<close> and \<open>setStatus\<close> of the media branch. The computed key
  \<open>[mediaData.button]\<close> is the button itself when it is a string.
\<close>

definition store_media :: "jsvalue \<Rightarrow> display \<Rightarrow> display outcome" where
  "store_media mediaData st =
     (case mediaData of
        JObj props \<Rightarrow>
          (case map_of props ''button'' of
             Some (JStr k) \<Rightarrow>
               Done (st\<lparr> buttonMedia := (buttonMedia st)(k \<mapsto> props),
                          status := ''Connected - Media loaded'' \<rparr>)
           | _ \<Rightarrow> OutsideInterface)
      | _ \<Rightarrow> OutsideInterface)"

text \<open>\<open>handleMQTTMessage\<close> of the plain display page (\<open>src/unnamed/part_000\<close>).\<close>

definition handleMQTTMessage_plain ::
  "(string \<Rightarrow> jsvalue option) \<Rightarrow> string \<Rightarrow> string \<Rightarrow> display \<Rightarrow> display outcome" where
  "handleMQTTMessage_plain JSON_parse message topic st =
     (case JSON_parse message of
        None \<Rightarrow> Done (catch_error SyntaxError message st)
      | Some data \<Rightarrow>
          if topic = ''home/buttonControl'' then
            (case getProp data ''activeButton'' of
               Inl err \<Rightarrow> Done (catch_error err message st)
             | Inr v \<Rightarrow>
                 (case as_button v of
                    Some b \<Rightarrow> Done (st\<lparr> selectedButton := b \<rparr>)
                  | None \<Rightarrow> OutsideInterface))
          else
            (case media_guard data of
               Inl err \<Rightarrow> Done (catch_error err message st)
             | Inr False \<Rightarrow> Done st
             | Inr True \<Rightarrow> store_media data st))"

text \<open>
  The media branch of the display page with media controls (\<open>src/unnamed/part_001\<close>): after
  storing the payload, a video or an image for the selected button of the handler's closure
  starts playing or scrolling.
\<close>

definition autostart :: "env \<Rightarrow> jsvalue \<Rightarrow> display \<Rightarrow> display" where
  "autostart e mediaData st =
     (let sel = selected e;
          mine = (getProp mediaData ''button'' = Inr (JStr (button_key sel)));
          st1 = (if getProp mediaData ''mediaType'' = Inr (JStr ''video'') \<and> mine
                 then st\<lparr> mediaState := (mediaState st)
                        (sel := (mediaState st sel)\<lparr> isPlaying := True \<rparr>) \<rparr>
                 else st)
      in if getProp mediaData ''mediaType'' = Inr (JStr ''image'') \<and> mine
         then st1\<lparr> mediaState := (mediaState st1)
                (sel := (mediaState st1 sel)\<lparr> isScrolling := True, scrollDirection := Down \<rparr>),
                scrollRef := 0 \<rparr>
         else st1)"

text \<open>
  The media-control branch: \<open>const { button, action, value } = controlData\<close> throws on
  \<open>null\<close>; an action that is none of the cases of the \<open>switch\<close> leaves the state as it was.
\<close>

definition control_branch ::
  "(real \<Rightarrow> real) \<Rightarrow> env \<Rightarrow> string \<Rightarrow> jsvalue \<Rightarrow> display \<Rightarrow> display outcome" where
  "control_branch rnd e message data st =
     (case getProp data ''action'' of
        Inl err \<Rightarrow> Done (catch_error err message st)
      | Inr a \<Rightarrow>
          (case as_action a of
             None \<Rightarrow> Done st
           | Some act \<Rightarrow>
               (case (getProp data ''button'', getProp data ''value'') of
                  (Inr b, Inr v) \<Rightarrow>
                    (case (as_button b, as_value v) of
                       (Some bt, Some vo) \<Rightarrow>
                         (let r = handleMediaControlMessage rnd e
                                    \<lparr> button = bt, action = act, val = vo, timestamp = 0 \<rparr>
                                    (mediaState st)
                          in Done (st\<lparr> mediaState := fst r, effects := effects st @ snd r \<rparr>))
                     | _ \<Rightarrow> OutsideInterface)
                | _ \<Rightarrow> OutsideInterface)))"

text \<open>\<open>handleMQTTMessage\<close> of the display page with media controls (\<open>src/unnamed/part_001\<close>).\<close>

definition handleMQTTMessage ::
  "(string \<Rightarrow> jsvalue option) \<Rightarrow> (real \<Rightarrow> real) \<Rightarrow> env \<Rightarrow> string \<Rightarrow> string \<Rightarrow> display
     \<Rightarrow> display outcome" where
  "handleMQTTMessage JSON_parse rnd e message topic st =
     (case JSON_parse message of
        None \<Rightarrow> Done (catch_error SyntaxError message st)
      | Some data \<Rightarrow>
          if topic = ''home/buttonControl'' then
            (case getProp data ''activeButton'' of
               Inl err \<Rightarrow> Done (catch_error err message st)
             | Inr v \<Rightarrow>
                 (case as_button v of
                    Some b \<Rightarrow> Done (st\<lparr> selectedButton := b \<rparr>)
                  | None \<Rightarrow> OutsideInterface))
          else if topic = ''home/mediaControl'' then control_branch rnd e message data st
          else
            (case media_guard data of
               Inl err \<Rightarrow> Done (catch_error err message st)
             | Inr False \<Rightarrow> Done st
             | Inr True \<Rightarrow>
                 (case store_media data st of
                    Done st1 \<Rightarrow> Done (autostart e data st1)
                  | OutsideInterface \<Rightarrow> OutsideInterface)))"



text \<open>
  What \<open>renderContent\<close> of the page with media controls puts on the page: a placeholder
  when nothing is displayed, else a view of the displayed item by its media type.
\<close>

datatype view =
    ConnectionIssue
  | WaitingForInput button
  | TextView jsvalue
  | PdfView jsvalue jsvalue
  | YouTubeView jsvalue
  | VideoView jsvalue
  | ImageViews "(jsvalue \<times> jsvalue) list"

text \<open>
  \<open>mediaUrls.map((url, index) => <img src={url} alt={fileNames[index]} />)\<close>: only an array
  has \<open>map\<close>.
\<close>

fun image_views :: "jsvalue \<Rightarrow> jsvalue list \<Rightarrow> nat \<Rightarrow> js_error + (jsvalue \<times> jsvalue) list" where
  "image_views fileNames [] i = Inr []"
| "image_views fileNames (url # urls) i =
     (case getIndex fileNames i of
        Inl err \<Rightarrow> Inl err
      | Inr alt \<Rightarrow>
          (case image_views fileNames urls (Suc i) of
             Inl err \<Rightarrow> Inl err
           | Inr rest \<Rightarrow> Inr ((url, alt) # rest)))"

definition renderContent :: "display \<Rightarrow> js_error + view" where
  "renderContent st =
     (case currentDisplay st of
        None \<Rightarrow>
          Inr (if \<not> isConnected_page st then ConnectionIssue
               else WaitingForInput (selectedButton st))
      | Some cd \<Rightarrow>
          (let mediaUrls = (case map_of cd ''fileContent'' of None \<Rightarrow> JUndefined | Some v \<Rightarrow> v);
               fileNames = (case map_of cd ''fileName'' of None \<Rightarrow> JUndefined | Some v \<Rightarrow> v);
               isVideo = (map_of cd ''mediaType'' = Some (JStr ''video''));
               isText = (map_of cd ''mediaType'' = Some (JStr ''text''));
               isPdf = (map_of cd ''mediaType'' = Some (JStr ''pdf''));
               isYouTube = (map_of cd ''fileType'' = Some (JStr ''video/youtube''))
           in if isText then
                (case getIndex mediaUrls 0 of Inl err \<Rightarrow> Inl err | Inr u \<Rightarrow> Inr (TextView u))
              else if isPdf then
                (case getIndex mediaUrls 0 of
                   Inl err \<Rightarrow> Inl err
                 | Inr u \<Rightarrow>
                     (case getIndex fileNames 0 of
                        Inl err \<Rightarrow> Inl err
                      | Inr n \<Rightarrow> Inr (PdfView u n)))
              else if isVideo then
                (case getIndex mediaUrls 0 of
                   Inl err \<Rightarrow> Inl err
                 | Inr u \<Rightarrow> Inr (if isYouTube then YouTubeView u else VideoView u))
              else
                (case mediaUrls of
                   JArr urls \<Rightarrow>
                     (case image_views fileNames urls 0 of
                        Inl err \<Rightarrow> Inl err
                      | Inr vs \<Rightarrow> Inr (ImageViews vs))
                 | _ \<Rightarrow> Inl TypeError)))"

section \<open>The remote pages\<close>

text \<open>
  What a submit handler of a remote page does up to its first \<open>publish\<close>: it returns
  without a word, it alerts and returns, or it publishes a payload (the value handed to
  \<open>JSON.stringify\<close>) on a topic. The bookkeeping after the publish is not modelled.
\<close>

datatype upload = Ignored | Alerted string | Publish string jsvalue

datatype mediaType = image | video | text_media | pdf

fun mediaType_name :: "mediaType \<Rightarrow> string" where
  "mediaType_name image = ''image''"
| "mediaType_name video = ''video''"
| "mediaType_name text_media = ''text''"
| "mediaType_name pdf = ''pdf''"

subsection \<open>The URL remote (\<open>src/pages/remote.tsx\<close>)\<close>

datatype selection = auto | image_only | video_only

text \<open>\<open>mediaUrl.split('/').pop() || 'media'\<close>: what follows the last slash, if anything.\<close>

definition last_segment :: "string \<Rightarrow> string" where
  "last_segment url = rev (takeWhile (\<lambda>c. c \<noteq> CHR ''/'') (rev url))"

definition fileName_of_url :: "string \<Rightarrow> string" where
  "fileName_of_url url = (if last_segment url = [] then ''media'' else last_segment url)"

text \<open>Strings: \<open>startsWith\<close>, \<open>includes\<close>, and ASCII lower case.\<close>

definition startsWith :: "string \<Rightarrow> string \<Rightarrow> bool" where
  "startsWith s p = (take (length p) s = p)"

fun js_includes :: "string \<Rightarrow> string \<Rightarrow> bool" where
  "js_includes [] p = (p = [])"
| "js_includes (c # cs) p = (startsWith (c # cs) p \<or> js_includes cs p)"

definition lower :: "char \<Rightarrow> char" where
  "lower c =
     (case map_of (zip ''ABCDEFGHIJKLMNOPQRSTUVWXYZ'' ''abcdefghijklmnopqrstuvwxyz'') c of
        None \<Rightarrow> c
      | Some l \<Rightarrow> l)"

text \<open>
  The two capturing patterns of \<open>processMediaUrl\<close> have the form
  \<open>(?:lit1|lit2|...)([a-zA-Z0-9_-]+)\<close>. \<open>url.match(...)?.[1]\<close> is the capture of the
  leftmost match: at the first position where one of the literals is followed by a character
  of the class, the longest run of such characters after the literal.
\<close>

definition id_char :: "char \<Rightarrow> bool" where
  "id_char c \<longleftrightarrow>
     c \<in> set ''abcdefghijklmnopqrstuvwxyzABCDEFGHIJKLMNOPQRSTUVWXYZ0123456789_-''"

definition capture_at :: "string list \<Rightarrow> string \<Rightarrow> string option" where
  "capture_at lits s =
     (case filter (\<lambda>l. startsWith s l \<and> takeWhile id_char (drop (length l) s) \<noteq> []) lits of
        [] \<Rightarrow> None
      | l # ls \<Rightarrow> Some (takeWhile id_char (drop (length l) s)))"

fun capture :: "string list \<Rightarrow> string \<Rightarrow> string option" where
  "capture lits [] = capture_at lits []"
| "capture lits (c # cs) =
     (case capture_at lits (c # cs) of Some r \<Rightarrow> Some r | None \<Rightarrow> capture lits cs)"

text \<open>
  The two patterns \<open>/\.(ext1|ext2|...)$/i\<close>: \<open>url.match(...)?.[0]\<close> is the end of the
  URL from the dot on, when that is a dot and one of the extensions in any case.
\<close>

definition extension :: "string list \<Rightarrow> string \<Rightarrow> string option" where
  "extension exts url =
     (case filter (\<lambda>e. length e < length url \<and>
                        map lower (drop (length url - Suc (length e)) url) = CHR ''.'' # e) exts of
        [] \<Rightarrow> None
      | e # es \<Rightarrow> Some (drop (length url - Suc (length e)) url))"

definition image_extension :: "string \<Rightarrow> string option" where
  "image_extension = extension [''jpg'', ''jpeg'', ''png'', ''gif'', ''webp'', ''bmp'', ''svg'']"

definition video_extension :: "string \<Rightarrow> string option" where
  "video_extension = extension [''mp4'', ''webm'', ''mov'', ''avi'', ''mkv'', ''ogv'']"

text \<open>\<open>url.match(...)?.[0] || 'image/jpeg'\<close>.\<close>

definition image_fileType :: "string \<Rightarrow> string" where
  "image_fileType url = (case image_extension url of None \<Rightarrow> ''image/jpeg'' | Some e \<Rightarrow> e)"

text \<open>\<open>processMediaUrl\<close>: the processed URL, the file type and the media type.\<close>

definition processMediaUrl :: "string \<Rightarrow> selection \<Rightarrow> string \<times> string \<times> mediaType" where
  "processMediaUrl url selectedType =
     (if js_includes url ''youtube.com'' \<or> js_includes url ''youtu.be'' then
        (case capture [''youtube.com/watch?v='', ''youtube.com/embed/'', ''youtu.be/''] url of
           Some videoId \<Rightarrow>
             (''https://www.youtube-nocookie.com/embed/'' @ videoId @ ''?autoplay=1&mute=1'',
              ''video/youtube'', video)
         | None \<Rightarrow> (url, ''image/jpeg'', image))
      else if js_includes url ''drive.google.com'' then
        (case capture [''drive.google.com/file/d/''] url of
           Some fileId \<Rightarrow>
             if selectedType = image_only \<or>
                (selectedType = auto \<and> image_extension url \<noteq> None)
             then (''https://drive.google.com/uc?export=view&id='' @ fileId,
                   image_fileType url, image)
             else (''https://drive.google.com/file/d/'' @ fileId @ ''/preview?autoplay=1'',
                   ''video/mp4'', video)
         | None \<Rightarrow> (url, ''image/jpeg'', image))
      else if selectedType = video_only \<or> (selectedType = auto \<and> video_extension url \<noteq> None)
      then (url, ''video/mp4'', video)
      else if selectedType = image_only \<or> (selectedType = auto \<and> image_extension url \<noteq> None)
      then (url, image_fileType url, image)
      else (url, ''image/jpeg'', image))"

text \<open>\<open>handleMediaUpload\<close>.\<close>

definition handleMediaUpload ::
  "string \<Rightarrow> bool \<Rightarrow> string \<Rightarrow> button \<Rightarrow> selection \<Rightarrow> real \<Rightarrow> upload" where
  "handleMediaUpload mediaUrl isConnected_r connectionStatus button_r mediaTypeSelection now =
     (if mediaUrl = [] then Alerted ''Please enter a media URL''
      else if \<not> isConnected_r then Alerted (''MQTT not connected. Status: '' @ connectionStatus)
      else
        (case processMediaUrl mediaUrl mediaTypeSelection of
           (processedUrl, fileType, mediaType) \<Rightarrow>
             Publish (''home/button'' @ button_key button_r)
               (JObj [(''button'', JStr (button_key button_r)),
                      (''fileName'', JStr (fileName_of_url mediaUrl)),
                      (''fileContent'', JStr processedUrl),
                      (''fileType'', JStr fileType),
                      (''mediaType'', JStr (mediaType_name mediaType)),
                      (''timestamp'', JNum now)])))"

subsection \<open>The file remote (\<open>src/unnamed/part_002\<close>)\<close>

text \<open>
  A picked file: its name, its MIME type, its text (\<open>file.text()\<close>) and the object URL
  the browser makes for it (\<open>URL.createObjectURL(file)\<close>).
\<close>

record picked_file =
  file_name :: string
  file_type :: string
  file_text :: string
  object_url :: string

text \<open>The body of the loop over the picked files: the media type, the names, the contents.\<close>

definition add_file ::
  "mediaType \<times> string list \<times> string list \<Rightarrow> picked_file \<Rightarrow> mediaType \<times> string list \<times> string list"
  where
  "add_file acc f =
     (case acc of (mediaType, fileNames, fileContents) \<Rightarrow>
        if startsWith (file_type f) ''image/'' then
          (image, fileNames @ [file_name f], fileContents @ [object_url f])
        else if startsWith (file_type f) ''video/'' then
          (video, fileNames @ [file_name f], fileContents @ [object_url f])
        else if file_type f = ''application/pdf'' then
          (pdf, fileNames @ [file_name f], fileContents @ [object_url f])
        else
          (text_media, fileNames @ [file_name f], fileContents @ [file_text f]))"

text \<open>\<open>fileNames.join(',')\<close>.\<close>

fun join_comma :: "string list \<Rightarrow> string" where
  "join_comma [] = []"
| "join_comma [s] = s"
| "join_comma (s # t # ss) = s @ '','' @ join_comma (t # ss)"

definition handleFileUpload ::
  "picked_file list \<Rightarrow> bool \<Rightarrow> string \<Rightarrow> button \<Rightarrow> real \<Rightarrow> upload" where
  "handleFileUpload files isConnected_r connectionStatus button_r now =
     (if files = [] then Ignored
      else if \<not> isConnected_r then Alerted (''MQTT not connected. Status: '' @ connectionStatus)
      else
        (case foldl add_file (text_media, [], []) files of
           (mediaType, fileNames, fileContents) \<Rightarrow>
             Publish (''home/button'' @ button_key button_r)
               (JObj [(''button'', JStr (button_key button_r)),
                      (''fileName'', JArr (map JStr fileNames)),
                      (''fileContent'', JArr (map JStr fileContents)),
                      (''fileType'', JStr (file_type (hd files))),
                      (''mediaType'', JStr (mediaType_name mediaType)),
                      (''timestamp'', JNum now),
                      (''isLocalFile'', JBool True),
                      (''filePath'', JStr (join_comma fileNames))])))"

text \<open>
  What the display page with media controls renders once a payload is the displayed item
  (nothing, when the payload is not an object).
\<close>

definition render_payload :: "display \<Rightarrow> jsvalue \<Rightarrow> js_error + view" where
  "render_payload st m =
     (case m of
        JObj props \<Rightarrow> renderContent (st\<lparr> currentDisplay := Some props \<rparr>)
      | _ \<Rightarrow> renderContent (st\<lparr> currentDisplay := None \<rparr>))"

text \<open>
  \<open>interface FileMessage\<close> of \<open>src/lib/mqtt.ts\<close>, as a check on a payload: what a value
  must look like to have the declared type.
\<close>

fun is_string :: "jsvalue \<Rightarrow> bool" where
  "is_string (JStr s) = True"
| "is_string v = False"

fun is_string_array :: "jsvalue \<Rightarrow> bool" where
  "is_string_array (JArr xs) = list_all is_string xs"
| "is_string_array v = False"

fun is_number :: "jsvalue \<Rightarrow> bool" where
  "is_number (JNum r) = True"
| "is_number v = False"

fun is_boolean :: "jsvalue \<Rightarrow> bool" where
  "is_boolean (JBool b) = True"
| "is_boolean v = False"

definition is_FileMessage :: "jsvalue \<Rightarrow> bool" where
  "is_FileMessage m =
     (case m of
        JObj props \<Rightarrow>
          (let field = (\<lambda>k. case map_of props k of None \<Rightarrow> JUndefined | Some v \<Rightarrow> v)
           in field ''button'' \<in> set [JStr ''A'', JStr ''B''] \<and>
              is_string_array (field ''fileName'') \<and>
              is_string_array (field ''fileContent'') \<and>
              is_string (field ''fileType'') \<and>
              field ''mediaType'' \<in> set [JStr ''image'', JStr ''video'', JStr ''text'', JStr ''pdf''] \<and>
              is_number (field ''timestamp'') \<and>
              (field ''isLocalFile'' = JUndefined \<or> is_boolean (field ''isLocalFile'')) \<and>
              (field ''filePath'' = JUndefined \<or> is_string (field ''filePath'')))
      | _ \<Rightarrow> False)"

section \<open>The plain display page: what it renders\<close>



section \<open>The MQTT client (\<open>src/lib/mqtt.ts\<close>)\<close>

subsection \<open>Configuration\<close>

record options =
  clientId :: string
  clean :: bool
  reconnectPeriod :: nat
  connectTimeout :: nat
  keepalive :: nat
  username :: "string option"
  password :: "string option"

record config =
  broker_name :: "string option"
  broker_url :: "string option"
  broker_options :: options

type_synonym callback = nat

type_synonym buffer = "nat list"

text \<open>
  What the client takes from its surroundings: the four environment variables (absent ones
  are \<open>None\<close>), the client id that \<open>Date.now()\<close> and \<open>Math.random()\<close> give to the
  n-th call of \<open>doConnect\<close>, and \<open>toString\<close> of a payload buffer.
\<close>

record runtime =
  NEXT_PUBLIC_MQTT_BROKER_NAME :: "string option"
  NEXT_PUBLIC_MQTT_BROKER_URL :: "string option"
  NEXT_PUBLIC_MQTT_USERNAME :: "string option"
  NEXT_PUBLIC_MQTT_PASSWORD :: "string option"
  freshClientId :: "nat \<Rightarrow> string"
  toString :: "buffer \<Rightarrow> string"

text \<open>The array \<open>configs\<close> of \<open>doConnect\<close>, in its n-th call.\<close>

definition configs :: "runtime \<Rightarrow> nat \<Rightarrow> config list" where
  "configs rt n =
     [\<lparr> broker_name = NEXT_PUBLIC_MQTT_BROKER_NAME rt,
        broker_url = NEXT_PUBLIC_MQTT_BROKER_URL rt,
        broker_options =
          \<lparr> clientId = freshClientId rt n, clean = True, reconnectPeriod = 0,
            connectTimeout = 10000, keepalive = 60,
            username = NEXT_PUBLIC_MQTT_USERNAME rt,
            password = NEXT_PUBLIC_MQTT_PASSWORD rt \<rparr> \<rparr>]"

subsection \<open>State\<close>

text \<open>
  The client is asynchronous. Its state is the fields of \<open>MQTTClient\<close> together with what
  the run time holds for it: the promises, the timers, the suspended calls. A client object
  of the library is named by the number of the \<open>mqtt.connect\<close> call that made it, a
  promise of \<open>doConnect\<close> by the number of the call.
\<close>

datatype promise = Pending | Fulfilled | Rejected string

text \<open>Calls into the library and the timer functions, in the order they are made.\<close>

datatype libcall =
    MqttConnect "string option" options
  | SetTimeout nat nat
  | ClearTimeout nat
  | ClientEnd nat
  | ClientSubscribe nat string nat
  | ClientPublish nat string string nat
  | ClientUnsubscribe nat string

text \<open>
  One call of \<open>connectToBroker\<close>: the \<open>doConnect\<close> call that awaits it and the configs
  its loop has left, the config, the promise, the timer while it is armed, and of the
  library's client whether it was ended, whether it has emitted \<open>connect\<close>, and how many
  \<open>message\<close> handlers are on it.
\<close>

record attempt =
  owner :: nat
  rest :: "config list"
  cfg :: config
  result :: promise
  timer :: "nat option"
  ended :: bool
  connected_once :: bool
  handlers :: nat

text \<open>
  A call of \<open>subscribe\<close> or \<open>publish\<close>: suspended in \<open>await this.connect()\<close> (on a
  promise of \<open>doConnect\<close>, or on none when \<open>connect\<close> returned a resolved promise),
  suspended until the library calls back, or over.
\<close>

datatype frame =
    SubscribeAwaitsConnect string callback "nat option"
  | SubscribeAwaitsAck string callback
  | PublishAwaitsConnect string string "nat option"
  | PublishAwaitsAck
  | Returned
  | Threw string

record client_state =
  client :: "nat option"
  isConnected :: bool
  currentBroker :: "string option"
  subscribers :: "string \<rightharpoonup> callback list"
  connectPromise :: "nat option"
  attempts :: "attempt list"
  doConnects :: "promise list"
  frames :: "frame list"
  calls :: "libcall list"
  delivered :: "(callback \<times> string \<times> string) list"
  failures :: "(string option \<times> string) list"

definition initialClient :: client_state where
  "initialClient =
     \<lparr> client = None, isConnected = False, currentBroker = Some [], subscribers = Map.empty,
       connectPromise = None, attempts = [], doConnects = [], frames = [], calls = [],
       delivered = [], failures = [] \<rparr>"

subsection \<open>Connecting\<close>

text \<open>
  The executor of \<open>connectToBroker\<close>: it makes the client, notes the broker's name, arms
  the timer and registers the handlers (the events below).
\<close>

definition connectToBroker :: "nat \<Rightarrow> config \<Rightarrow> config list \<Rightarrow> client_state \<Rightarrow> client_state" where
  "connectToBroker d c cs s =
     s\<lparr> client := Some (length (attempts s)),
        currentBroker := broker_name c,
        attempts := attempts s @
          [\<lparr> owner = d, rest = cs, cfg = c, result = Pending,
             timer = Some (connectTimeout (broker_options c)), ended = False,
             connected_once = False, handlers = 0 \<rparr>],
        calls := calls s @
          [MqttConnect (broker_url c) (broker_options c),
           SetTimeout (length (attempts s)) (connectTimeout (broker_options c))] \<rparr>"

text \<open>
  \<open>doConnect\<close> settles, and the \<open>connect\<close> that awaits it runs its \<open>finally\<close>. The
  reactions to a settled promise run before the next event or call reaches the client, so
  they are part of the step that settles it.
\<close>

definition finish :: "nat \<Rightarrow> promise \<Rightarrow> client_state \<Rightarrow> client_state" where
  "finish d p s = s\<lparr> doConnects := (doConnects s)[d := p], connectPromise := None \<rparr>"

text \<open>
  The loop of \<open>doConnect\<close> from a config on: it calls \<open>connectToBroker\<close> and awaits it;
  with no config left it throws.
\<close>

fun try_configs :: "nat \<Rightarrow> config list \<Rightarrow> client_state \<Rightarrow> client_state" where
  "try_configs d [] s = finish d (Rejected ''All connection attempts failed'') s"
| "try_configs d (c # cs) s = connectToBroker d c cs s"

text \<open>
  \<open>setupMessageHandler\<close>: one more \<open>message\<close> handler (below) on the client the
  field holds, if it holds one.
\<close>

definition setupMessageHandler :: "client_state \<Rightarrow> client_state" where
  "setupMessageHandler s =
     (case client s of
        None \<Rightarrow> s
      | Some k \<Rightarrow>
          s\<lparr> attempts := (attempts s)[k := (attempts s ! k)\<lparr> handlers := Suc (handlers (attempts s ! k)) \<rparr>] \<rparr>)"

text \<open>
  What a call of \<open>connect\<close> returns: the promise in \<open>connectPromise\<close>, a resolved
  promise, or its own promise, which settles as the promise of the \<open>doConnect\<close> it
  started does, after the \<open>finally\<close>. A \<open>connect\<close> that starts puts the promise into
  the field and runs \<open>doConnect\<close> as far as its first \<open>await\<close>.
\<close>

datatype connect_result = Joined nat | ResolvedNow | Started nat

definition connect :: "runtime \<Rightarrow> client_state \<Rightarrow> connect_result \<times> client_state" where
  "connect rt s =
     (case connectPromise s of
        Some p \<Rightarrow> (Joined p, s)
      | None \<Rightarrow>
          if client s \<noteq> None \<and> isConnected s then (ResolvedNow, s)
          else
            (let d = length (doConnects s)
             in (Started d,
                 try_configs d (configs rt d)
                   (s\<lparr> doConnects := doConnects s @ [Pending], connectPromise := Some d \<rparr>))))"

text \<open>The promise a caller of \<open>connect\<close> awaits: none when it is resolved at once.\<close>

fun awaited :: "connect_result \<Rightarrow> nat option" where
  "awaited (Joined p) = Some p"
| "awaited ResolvedNow = None"
| "awaited (Started d) = Some d"

subsection \<open>The handlers on a client\<close>

text \<open>\<open>this.client?.end(true)\<close>: it ends the client the field holds at that moment.\<close>

definition end_client :: "client_state \<Rightarrow> client_state" where
  "end_client s =
     (case client s of
        None \<Rightarrow> s
      | Some k \<Rightarrow>
          s\<lparr> attempts := (attempts s)[k := (attempts s ! k)\<lparr> ended := True \<rparr>],
             calls := calls s @ [ClientEnd k] \<rparr>)"

text \<open>\<open>resolve()\<close> of attempt \<open>c\<close>, and \<open>doConnect\<close> after its \<open>await\<close>.\<close>

definition resolve :: "nat \<Rightarrow> client_state \<Rightarrow> client_state" where
  "resolve c s =
     (if result (attempts s ! c) = Pending then
        finish (owner (attempts s ! c)) Fulfilled
          (setupMessageHandler
             (s\<lparr> attempts := (attempts s)[c := (attempts s ! c)\<lparr> result := Fulfilled \<rparr>] \<rparr>))
      else s)"

text \<open>
  \<open>reject(error)\<close> of attempt \<open>c\<close>, and \<open>doConnect\<close> in its \<open>catch\<close>: it logs and goes
  on with the next config.
\<close>

definition reject :: "nat \<Rightarrow> string \<Rightarrow> client_state \<Rightarrow> client_state" where
  "reject c msg s =
     (if result (attempts s ! c) = Pending then
        try_configs (owner (attempts s ! c)) (rest (attempts s ! c))
          (s\<lparr> attempts := (attempts s)[c := (attempts s ! c)\<lparr> result := Rejected msg \<rparr>],
              failures := failures s @ [(broker_name (cfg (attempts s ! c)), msg)] \<rparr>)
      else s)"

definition clearTimeout :: "nat \<Rightarrow> client_state \<Rightarrow> client_state" where
  "clearTimeout c s =
     s\<lparr> attempts := (attempts s)[c := (attempts s ! c)\<lparr> timer := None \<rparr>],
        calls := calls s @ [ClearTimeout c] \<rparr>"

text \<open>
  The library emits \<open>connect\<close> on a client that was not ended and, created with
  \<open>reconnectPeriod: 0\<close>, not more than once.
\<close>

definition on_connect :: "nat \<Rightarrow> client_state \<Rightarrow> client_state" where
  "on_connect c s =
     (if c < length (attempts s) \<and> \<not> ended (attempts s ! c) \<and> \<not> connected_once (attempts s ! c)
      then resolve c
             ((clearTimeout c s)
                \<lparr> isConnected := True,
                  attempts := (attempts (clearTimeout c s))
                    [c := (attempts (clearTimeout c s) ! c)\<lparr> connected_once := True \<rparr>] \<rparr>)
      else s)"

definition on_error :: "nat \<Rightarrow> string \<Rightarrow> client_state \<Rightarrow> client_state" where
  "on_error c msg s =
     (if c < length (attempts s) then reject c msg (end_client (clearTimeout c s)) else s)"

text \<open>The timer of attempt \<open>c\<close> fires, if it is still armed.\<close>

definition timeout_message :: "string option \<Rightarrow> string" where
  "timeout_message n = ''Timeout: '' @ (case n of None \<Rightarrow> ''undefined'' | Some b \<Rightarrow> b)"

definition on_timeout :: "nat \<Rightarrow> client_state \<Rightarrow> client_state" where
  "on_timeout c s =
     (if c < length (attempts s) \<and> timer (attempts s ! c) \<noteq> None
      then reject c (timeout_message (broker_name (cfg (attempts s ! c))))
             (end_client
                (s\<lparr> attempts := (attempts s)[c := (attempts s ! c)\<lparr> timer := None \<rparr>] \<rparr>))
      else s)"

definition on_close :: "nat \<Rightarrow> client_state \<Rightarrow> client_state" where
  "on_close c s = (if c < length (attempts s) then s\<lparr> isConnected := False \<rparr> else s)"

text \<open>
  The \<open>message\<close> handler that \<open>setupMessageHandler\<close> puts on a client: the callbacks of
  the topic, if any, are called in the order of their list.
\<close>

definition listeners :: "client_state \<Rightarrow> string \<Rightarrow> callback list" where
  "listeners s topic = (case subscribers s topic of None \<Rightarrow> [] | Some callbacks \<Rightarrow> callbacks)"

definition message_handler :: "runtime \<Rightarrow> string \<Rightarrow> buffer \<Rightarrow> client_state \<Rightarrow> client_state" where
  "message_handler rt topic message s =
     (case subscribers s topic of
        None \<Rightarrow> s
      | Some callbacks \<Rightarrow>
          s\<lparr> delivered := delivered s @
                map (\<lambda>callback. (callback, toString rt message, topic)) callbacks \<rparr>)"

text \<open>The library emits \<open>message\<close> on a client: every handler on it runs.\<close>

definition on_message :: "runtime \<Rightarrow> nat \<Rightarrow> string \<Rightarrow> buffer \<Rightarrow> client_state \<Rightarrow> client_state" where
  "on_message rt c topic message s =
     (if c < length (attempts s)
      then ((message_handler rt topic message) ^^ handlers (attempts s ! c)) s
      else s)"

subsection \<open>Subscribing and publishing\<close>

definition set_frame :: "nat \<Rightarrow> frame \<Rightarrow> client_state \<Rightarrow> client_state" where
  "set_frame k f s = s\<lparr> frames := (frames s)[k := f] \<rparr>"

text \<open>A call: it runs \<open>connect\<close> and is suspended on what \<open>connect\<close> returned.\<close>

definition call_subscribe :: "runtime \<Rightarrow> string \<Rightarrow> callback \<Rightarrow> client_state \<Rightarrow> client_state" where
  "call_subscribe rt topic callback s =
     (case connect rt s of
        (r, s1) \<Rightarrow> s1\<lparr> frames := frames s1 @ [SubscribeAwaitsConnect topic callback (awaited r)] \<rparr>)"

definition call_publish :: "runtime \<Rightarrow> string \<Rightarrow> string \<Rightarrow> client_state \<Rightarrow> client_state" where
  "call_publish rt topic message s =
     (case connect rt s of
        (r, s1) \<Rightarrow> s1\<lparr> frames := frames s1 @ [PublishAwaitsConnect topic message (awaited r)] \<rparr>)"

text \<open>The state of what a suspended call awaits.\<close>

definition awaited_state :: "client_state \<Rightarrow> nat option \<Rightarrow> promise" where
  "awaited_state s a =
     (case a of
        None \<Rightarrow> Fulfilled
      | Some d \<Rightarrow> if d < length (doConnects s) then doConnects s ! d else Pending)"

text \<open>\<open>subscribe\<close> after \<open>await this.connect()\<close>.\<close>

definition subscribe_connected :: "nat \<Rightarrow> string \<Rightarrow> callback \<Rightarrow> client_state \<Rightarrow> client_state" where
  "subscribe_connected k topic callback s =
     (case client s of
        None \<Rightarrow> set_frame k (Threw ''MQTT client not connected'') s
      | Some c \<Rightarrow>
          if \<not> isConnected s then set_frame k (Threw ''MQTT client not connected'') s
          else
            (case subscribers s topic of
               None \<Rightarrow>
                 set_frame k (SubscribeAwaitsAck topic callback)
                   (s\<lparr> subscribers := (subscribers s)(topic \<mapsto> []),
                       calls := calls s @ [ClientSubscribe c topic 0] \<rparr>)
             | Some callbacks \<Rightarrow>
                 set_frame k Returned
                   (s\<lparr> subscribers := (subscribers s)(topic \<mapsto> callbacks @ [callback]) \<rparr>)))"

text \<open>\<open>publish\<close> after \<open>await this.connect()\<close>.\<close>

definition publish_connected :: "nat \<Rightarrow> string \<Rightarrow> string \<Rightarrow> client_state \<Rightarrow> client_state" where
  "publish_connected k topic message s =
     (case client s of
        None \<Rightarrow> set_frame k (Threw ''MQTT client not connected'') s
      | Some c \<Rightarrow>
          if \<not> isConnected s then set_frame k (Threw ''MQTT client not connected'') s
          else set_frame k PublishAwaitsAck
                 (s\<lparr> calls := calls s @ [ClientPublish c topic message 0] \<rparr>))"

text \<open>
  A suspended call goes on once what it awaits is settled: it rethrows a rejection, it runs
  on after a fulfilment, and it stays where it is while the promise is pending.
\<close>

definition resume :: "nat \<Rightarrow> client_state \<Rightarrow> client_state" where
  "resume k s =
     (if k < length (frames s) then
        (case frames s ! k of
           SubscribeAwaitsConnect topic callback a \<Rightarrow>
             (case awaited_state s a of
                Pending \<Rightarrow> s
              | Rejected msg \<Rightarrow> set_frame k (Threw msg) s
              | Fulfilled \<Rightarrow> subscribe_connected k topic callback s)
         | PublishAwaitsConnect topic message a \<Rightarrow>
             (case awaited_state s a of
                Pending \<Rightarrow> s
              | Rejected msg \<Rightarrow> set_frame k (Threw msg) s
              | Fulfilled \<Rightarrow> publish_connected k topic message s)
         | _ \<Rightarrow> s)
      else s)"

text \<open>
  The library calls back, with an error or without. After a granted subscription
  \<open>this.subscribers.get(topic)!.push(callback)\<close> throws when the topic's list is gone.
\<close>

definition acknowledge :: "nat \<Rightarrow> string option \<Rightarrow> client_state \<Rightarrow> client_state" where
  "acknowledge k err s =
     (if k < length (frames s) then
        (case frames s ! k of
           SubscribeAwaitsAck topic callback \<Rightarrow>
             (case err of
                Some msg \<Rightarrow> set_frame k (Threw msg) s
              | None \<Rightarrow>
                  (case subscribers s topic of
                     None \<Rightarrow> set_frame k (Threw ''TypeError'') s
                   | Some callbacks \<Rightarrow>
                       set_frame k Returned
                         (s\<lparr> subscribers := (subscribers s)(topic \<mapsto> callbacks @ [callback]) \<rparr>)))
         | PublishAwaitsAck \<Rightarrow>
             (case err of
                Some msg \<Rightarrow> set_frame k (Threw msg) s
              | None \<Rightarrow> set_frame k Returned s)
         | _ \<Rightarrow> s)
      else s)"

text \<open>
  \<open>unsubscribe\<close>: \<open>splice\<close> takes the first occurrence of the callback out; without a
  callback the list is emptied; an empty list is deleted and the topic unsubscribed.
\<close>

definition unsubscribe :: "string \<Rightarrow> callback option \<Rightarrow> client_state \<Rightarrow> client_state" where
  "unsubscribe topic callback s =
     (case subscribers s topic of
        None \<Rightarrow> s
      | Some callbacks \<Rightarrow>
          (let callbacks1 = (case callback of Some cb \<Rightarrow> remove1 cb callbacks | None \<Rightarrow> [])
           in if callbacks1 = [] then
                (let s1 = s\<lparr> subscribers := (subscribers s)(topic := None) \<rparr>
                 in case client s of
                      None \<Rightarrow> s1
                    | Some c \<Rightarrow>
                        if isConnected s then s1\<lparr> calls := calls s1 @ [ClientUnsubscribe c topic] \<rparr>
                        else s1)
              else s\<lparr> subscribers := (subscribers s)(topic \<mapsto> callbacks1) \<rparr>))"

definition disconnect :: "client_state \<Rightarrow> client_state" where
  "disconnect s =
     (case client s of
        None \<Rightarrow> s
      | Some c \<Rightarrow> (end_client s)\<lparr> isConnected := False, subscribers := Map.empty \<rparr>)"

text \<open>
  \<open>publishButtonControl\<close> and \<open>publishMediaControl\<close>: a call of \<open>publish\<close> with the
  message as JSON text. \<open>JSON.stringify\<close> and the time are taken as given; an absent
  \<open>value\<close> is left out of the text.
\<close>

fun action_name :: "action \<Rightarrow> string" where
  "action_name play = ''play''"
| "action_name pause = ''pause''"
| "action_name seek_forward = ''seek_forward''"
| "action_name seek_backward = ''seek_backward''"
| "action_name zoom_in = ''zoom_in''"
| "action_name zoom_out = ''zoom_out''"
| "action_name zoom_reset = ''zoom_reset''"
| "action_name move_up = ''move_up''"
| "action_name move_down = ''move_down''"
| "action_name move_left = ''move_left''"
| "action_name move_right = ''move_right''"
| "action_name move_reset = ''move_reset''"
| "action_name scroll_stop = ''scroll_stop''"
| "action_name scroll_speed_up = ''scroll_speed_up''"
| "action_name scroll_speed_down = ''scroll_speed_down''"

definition publishButtonControl ::
  "(jsvalue \<Rightarrow> string) \<Rightarrow> runtime \<Rightarrow> real \<Rightarrow> button \<Rightarrow> client_state \<Rightarrow> client_state" where
  "publishButtonControl JSON_stringify rt now activeButton s =
     call_publish rt ''home/buttonControl''
       (JSON_stringify
          (JObj [(''activeButton'', JStr (button_key activeButton)), (''timestamp'', JNum now)])) s"

definition publishMediaControl ::
  "(jsvalue \<Rightarrow> string) \<Rightarrow> runtime \<Rightarrow> real \<Rightarrow> button \<Rightarrow> action \<Rightarrow> real option
     \<Rightarrow> client_state \<Rightarrow> client_state" where
  "publishMediaControl JSON_stringify rt now b a v s =
     call_publish rt ''home/mediaControl''
       (JSON_stringify
          (JObj ([(''button'', JStr (button_key b)), (''action'', JStr (action_name a))] @
                 (case v of None \<Rightarrow> [] | Some r \<Rightarrow> [(''value'', JNum r)]) @
                 [(''timestamp'', JNum now)]))) s"

subsection \<open>Runs\<close>

text \<open>
  What can happen to the client: a call of one of its methods, an event of the library on
  one of the clients made so far, a suspended call of \<open>subscribe\<close> or \<open>publish\<close>
  going on (at any later moment, and in any order among the suspended calls), the library
  calling back. A run is a list of such events, in any order and number.
\<close>

datatype event =
    CallConnect
  | CallSubscribe string callback
  | CallPublish string string
  | CallUnsubscribe string "callback option"
  | CallDisconnect
  | Resume nat
  | Acknowledge nat "string option"
  | OnConnect nat
  | OnError nat string
  | OnTimeout nat
  | OnClose nat
  | OnOffline nat
  | OnMessage nat string buffer

fun step :: "runtime \<Rightarrow> event \<Rightarrow> client_state \<Rightarrow> client_state" where
  "step rt CallConnect s = snd (connect rt s)"
| "step rt (CallSubscribe topic callback) s = call_subscribe rt topic callback s"
| "step rt (CallPublish topic message) s = call_publish rt topic message s"
| "step rt (CallUnsubscribe topic callback) s = unsubscribe topic callback s"
| "step rt CallDisconnect s = disconnect s"
| "step rt (Resume k) s = resume k s"
| "step rt (Acknowledge k err) s = acknowledge k err s"
| "step rt (OnConnect c) s = on_connect c s"
| "step rt (OnError c msg) s = on_error c msg s"
| "step rt (OnTimeout c) s = on_timeout c s"
| "step rt (OnClose c) s = on_close c s"
| "step rt (OnOffline c) s = on_close c s"
| "step rt (OnMessage c topic message) s = on_message rt c topic message s"

fun run :: "runtime \<Rightarrow> event list \<Rightarrow> client_state \<Rightarrow> client_state" where
  "run rt [] s = s"
| "run rt (ev # evs) s = run rt evs (step rt ev s)"

text \<open>The attempts in flight: the calls of \<open>connectToBroker\<close> whose promise is pending.\<close>

definition in_flight :: "client_state \<Rightarrow> nat list" where
  "in_flight s = filter (\<lambda>c. result (attempts s ! c) = Pending) [0 ..< length (attempts s)]"

section \<open>The client: what its runs keep\<close>

text \<open>
  The predicates of the proofs about runs. \<open>shape\<close>: every \<open>doConnect\<close> made one
  attempt, the one of its own number, with no config left to try, and the client field holds
  the last client made.
\<close>

definition shape :: "client_state \<Rightarrow> bool" where
  "shape s \<longleftrightarrow>
     length (doConnects s) = length (attempts s) \<and>
     client s = (case length (attempts s) of 0 \<Rightarrow> None | Suc n \<Rightarrow> Some n) \<and>
     (\<forall>c < length (attempts s). owner (attempts s ! c) = c \<and> rest (attempts s ! c) = [])"

text \<open>
  \<open>good\<close>: a pending attempt has not connected and has no message handler; a settled one
  was ended or has connected, and has one message handler when it was fulfilled, none
  otherwise.
\<close>

definition good :: "attempt \<Rightarrow> bool" where
  "good a \<longleftrightarrow>
     (result a = Pending \<longrightarrow> \<not> connected_once a \<and> handlers a = 0) \<and>
     (result a \<noteq> Pending \<longrightarrow>
        (ended a \<or> connected_once a) \<and>
        handlers a = (if result a = Fulfilled then 1 else 0))"

text \<open>
  \<open>pend_last\<close>, of the promises of the attempts, the \<open>connectPromise\<close> field and the
  \<open>isConnected\<close> field: with the field empty no attempt is pending; with the field set
  the last attempt, and only that, is pending, the field holds its number, and the client is
  not connected.
\<close>

definition pend_last :: "promise list \<Rightarrow> nat option \<Rightarrow> bool \<Rightarrow> bool" where
  "pend_last rs cp conn \<longleftrightarrow>
     (case cp of
        None \<Rightarrow> Pending \<notin> set rs
      | Some d \<Rightarrow>
          rs \<noteq> [] \<and> last rs = Pending \<and> Pending \<notin> set (butlast rs) \<and> Suc d = length rs \<and>
          \<not> conn)"

definition client_inv :: "client_state \<Rightarrow> bool" where
  "client_inv s \<longleftrightarrow>
     shape s \<and> list_all good (attempts s) \<and>
     pend_last (map result (attempts s)) (connectPromise s) (isConnected s) \<and>
     (attempts s = [] \<longrightarrow> \<not> isConnected s)"

text \<open>
  \<open>tracked\<close>: the promise of a \<open>doConnect\<close> is pending or fulfilled with its attempt,
  and rejected with the error of \<open>doConnect\<close> when the attempt is rejected.
\<close>

definition track :: "promise \<Rightarrow> promise" where
  "track p =
     (case p of
        Pending \<Rightarrow> Pending
      | Fulfilled \<Rightarrow> Fulfilled
      | Rejected msg \<Rightarrow> Rejected ''All connection attempts failed'')"

definition tracked :: "client_state \<Rightarrow> bool" where
  "tracked s \<longleftrightarrow> doConnects s = map (\<lambda>a. track (result a)) (attempts s)"

text \<open>The quality of service of a call into the library, if it has one.\<close>

fun qos_of :: "libcall \<Rightarrow> nat option" where
  "qos_of (ClientSubscribe c topic q) = Some q"
| "qos_of (ClientPublish c topic message q) = Some q"
| "qos_of call = None"

fun is_MqttConnect :: "libcall \<Rightarrow> bool" where
  "is_MqttConnect (MqttConnect u opts) = True"
| "is_MqttConnect call = False"

definition qos0 :: "libcall \<Rightarrow> bool" where
  "qos0 call \<longleftrightarrow> (case qos_of call of None \<Rightarrow> True | Some q \<Rightarrow> q = 0)"

text \<open>
  \<open>armed\<close>: a pending attempt has its 10-second timer running, and every attempt was made
  with \<open>reconnectPeriod: 0\<close> and \<open>connectTimeout: 10000\<close>. \<open>counted\<close>: that, and as
  many \<open>mqtt.connect\<close> calls as calls of \<open>doConnect\<close>.
\<close>

definition armed :: "attempt \<Rightarrow> bool" where
  "armed a \<longleftrightarrow>
     (result a = Pending \<longrightarrow> timer a = Some 10000) \<and>
     reconnectPeriod (broker_options (cfg a)) = 0 \<and>
     connectTimeout (broker_options (cfg a)) = 10000"

definition counted :: "client_state \<Rightarrow> bool" where
  "counted s \<longleftrightarrow>
     list_all armed (attempts s) \<and>
     length (filter is_MqttConnect (calls s)) = length (doConnects s)"

text \<open>
  \<open>order_kept\<close>: a list of callbacks after a step is the list before it, or empty, or the
  list before it with one callback added at the end or with one occurrence of a callback
  taken out.
\<close>

definition order_kept :: "callback list \<Rightarrow> callback list \<Rightarrow> bool" where
  "order_kept old new \<longleftrightarrow>
     new = old \<or> new = [] \<or> (\<exists>cb. new = old @ [cb] \<or> new = remove1 cb old)"

text \<open>A runtime to run the client in.\<close>

definition demo_runtime :: runtime where
  "demo_runtime =
     \<lparr> NEXT_PUBLIC_MQTT_BROKER_NAME = Some ''broker'',
       NEXT_PUBLIC_MQTT_BROKER_URL = Some ''wss://broker:8884/mqtt'',
       NEXT_PUBLIC_MQTT_USERNAME = None, NEXT_PUBLIC_MQTT_PASSWORD = None,
       freshClientId = (\<lambda>n. ''media_remote_1''), toString = map char_of \<rparr>"






section \<open>Properties of the media-control reducer\<close>

subsection \<open>Bounds kept by one control message\<close>

lemma lit_0_1_bounds:
  assumes "rounding rnd"
  shows "0 \<le> lit_0_1 rnd" and "lit_0_1 rnd \<le> 1" and "rnd (lit_0_1 rnd) = lit_0_1 rnd"
proof -
  have m: "mono rnd" and r0: "rnd 0 = 0" and r1: "rnd 1 = 1"
    using assms by (simp_all add: rounding_def)
  show "0 \<le> lit_0_1 rnd"
    using monoD [OF m, of 0 "1 / 10"] r0 by (simp add: lit_0_1_def)
  show "lit_0_1 rnd \<le> 1"
    using monoD [OF m, of "1 / 10" 1] r1 by (simp add: lit_0_1_def)
  show "rnd (lit_0_1 rnd) = lit_0_1 rnd"
    using assms by (simp add: rounding_def lit_0_1_def)
qed

lemma zoom_step:
  assumes r: "rounding rnd"
    and z: "lit_0_1 rnd \<le> zoomLevel (st b)" "zoomLevel (st b) \<le> 5"
  shows "lit_0_1 rnd \<le> zoomLevel (fst (handleMediaControlMessage rnd e m st) b) \<and>
         zoomLevel (fst (handleMediaControlMessage rnd e m st) b) \<le> 5"
proof -
  have m: "mono rnd" and r5: "rnd 5 = 5"
    using r by (simp_all add: rounding_def)
  note lo = lit_0_1_bounds [OF r]
  have z0: "0 \<le> zoomLevel (st b)"
    using lo(1) z(1) by linarith
  have up: "lit_0_1 rnd \<le> rnd (zoomLevel (st b) * 1.25)"
    using monoD [OF m, of "lit_0_1 rnd" "zoomLevel (st b) * 1.25"] lo(3) z z0 by simp
  have dn: "rnd (zoomLevel (st b) / 1.25) \<le> 5"
    using monoD [OF m, of "zoomLevel (st b) / 1.25" 5] r5 z z0 by simp
  show ?thesis
    using z up dn lo(2)
    by (cases "action m") (auto simp: handleMediaControlMessage_def Let_def js_mul_def js_div_def)
qed

lemma speed_step:
  assumes r: "rounding rnd"
    and z: "10 \<le> scrollSpeed (st b)" "scrollSpeed (st b) \<le> 200"
  shows "10 \<le> scrollSpeed (fst (handleMediaControlMessage rnd e m st) b) \<and>
         scrollSpeed (fst (handleMediaControlMessage rnd e m st) b) \<le> 200"
proof -
  have m: "mono rnd" and r10: "rnd 10 = 10" and r200: "rnd 200 = 200"
    using r by (simp_all add: rounding_def)
  have up: "10 \<le> rnd (scrollSpeed (st b) + 10)"
    using monoD [OF m, of 10 "scrollSpeed (st b) + 10"] r10 z by simp
  have dn: "rnd (scrollSpeed (st b) - 10) \<le> 200"
    using monoD [OF m, of "scrollSpeed (st b) - 10" 200] r200 z by simp
  show ?thesis
    using z up dn
    by (cases "action m") (auto simp: handleMediaControlMessage_def Let_def js_add_def js_sub_def)
qed

lemma controls_invariant:
  assumes step: "\<And>e m st. P st \<Longrightarrow> P (fst (handleMediaControlMessage rnd e m st))"
    and init: "P st"
  shows "P (controls rnd ms st)"
  using init
proof (induction ms arbitrary: st)
  case Nil
  then show ?case by simp
next
  case (Cons em ms)
  obtain e m where em: "em = (e, m)" by (cases em)
  from Cons.prems have "P (fst (handleMediaControlMessage rnd e m st))" by (rule step)
  then have "P (controls rnd ms (fst (handleMediaControlMessage rnd e m st)))" by (rule Cons.IH)
  then show ?case by (simp add: em)
qed

subsection \<open>Zoom level\<close>

text \<open>
  C3. Starting from the initial zoom level 1, every sequence of control messages keeps the
  zoom level of each button between the double 0.1 and 5; \<open>zoom_in\<close> sets it to
  \<open>min (zoomLevel * 1.25) 5\<close>, \<open>zoom_out\<close> to \<open>max (zoomLevel / 1.25) 0.1\<close> and
  \<open>zoom_reset\<close> to 1.
\<close>

theorem zoomLevel_within_bounds:
  assumes "rounding rnd"
  shows "(lit_0_1 rnd \<le> zoomLevel (controls rnd ms initialMediaState b) \<and>
          zoomLevel (controls rnd ms initialMediaState b) \<le> 5) \<and>
         zoomLevel (initialMediaState b) = 1 \<and>
         zoomLevel (fst (handleMediaControlMessage rnd e
            \<lparr> button = c, action = zoom_in, val = v, timestamp = t \<rparr> st) c)
           = min (js_mul rnd (zoomLevel (st c)) 1.25) 5 \<and>
         zoomLevel (fst (handleMediaControlMessage rnd e
            \<lparr> button = c, action = zoom_out, val = v, timestamp = t \<rparr> st) c)
           = max (js_div rnd (zoomLevel (st c)) 1.25) (lit_0_1 rnd) \<and>
         zoomLevel (fst (handleMediaControlMessage rnd e
            \<lparr> button = c, action = zoom_reset, val = v, timestamp = t \<rparr> st) c) = 1"
proof -
  let ?P = "\<lambda>st. lit_0_1 rnd \<le> zoomLevel (st b) \<and> zoomLevel (st b) \<le> 5"
  have "?P initialMediaState"
    using lit_0_1_bounds(2) [OF assms] by (simp add: initialMediaState_def initialMedia_def)
  then have inv: "?P (controls rnd ms initialMediaState)"
    by (rule controls_invariant [where P = ?P, rotated]) (rule zoom_step [OF assms], simp_all)
  have init: "zoomLevel (initialMediaState b) = 1"
    by (simp add: initialMediaState_def initialMedia_def)
  from inv init show ?thesis
    by (simp add: handleMediaControlMessage_def Let_def)
qed

theorem zoomLevel_within_bounds_witness:
  "rounding (\<lambda>x. x) \<and>
   zoomLevel (controls (\<lambda>x. x)
     [(\<lparr> selected = ButtonA, hasVideo = False, hasFrame = False \<rparr>,
       \<lparr> button = ButtonA, action = zoom_out, val = None, timestamp = 0 \<rparr>),
      (\<lparr> selected = ButtonA, hasVideo = False, hasFrame = False \<rparr>,
       \<lparr> button = ButtonA, action = zoom_out, val = None, timestamp = 1 \<rparr>)]
     initialMediaState ButtonA) = 16 / 25 \<and>
   lit_0_1 (\<lambda>x. x) \<le> 16 / 25 \<and> (16 / 25 :: real) \<le> 5"
  using zoomLevel_within_bounds [of "\<lambda>x. x"]
  by (simp add: rounding_def mono_def lit_0_1_def handleMediaControlMessage_def
      initialMediaState_def initialMedia_def js_div_def Let_def)


subsection \<open>Scroll speed\<close>

text \<open>
  C4. Starting from the initial scroll speed 50, every sequence of control messages keeps the
  scroll speed of each button between 10 and 200; \<open>scroll_speed_up\<close> sets it to
  \<open>min (scrollSpeed + 10) 200\<close> and \<open>scroll_speed_down\<close> to \<open>max (scrollSpeed - 10) 10\<close>.
\<close>

theorem scrollSpeed_within_bounds:
  assumes "rounding rnd"
  shows "(10 \<le> scrollSpeed (controls rnd ms initialMediaState b) \<and>
          scrollSpeed (controls rnd ms initialMediaState b) \<le> 200) \<and>
         scrollSpeed (initialMediaState b) = 50 \<and>
         scrollSpeed (fst (handleMediaControlMessage rnd e
            \<lparr> button = c, action = scroll_speed_up, val = v, timestamp = t \<rparr> st) c)
           = min (js_add rnd (scrollSpeed (st c)) 10) 200 \<and>
         scrollSpeed (fst (handleMediaControlMessage rnd e
            \<lparr> button = c, action = scroll_speed_down, val = v, timestamp = t \<rparr> st) c)
           = max (js_sub rnd (scrollSpeed (st c)) 10) 10"
proof -
  let ?P = "\<lambda>st. 10 \<le> scrollSpeed (st b) \<and> scrollSpeed (st b) \<le> 200"
  have "?P initialMediaState"
    by (simp add: initialMediaState_def initialMedia_def)
  then have inv: "?P (controls rnd ms initialMediaState)"
    by (rule controls_invariant [where P = ?P, rotated]) (rule speed_step [OF assms], simp_all)
  have init: "scrollSpeed (initialMediaState b) = 50"
    by (simp add: initialMediaState_def initialMedia_def)
  from inv init show ?thesis
    by (simp add: handleMediaControlMessage_def Let_def)
qed

theorem scrollSpeed_within_bounds_witness:
  "rounding (\<lambda>x. x) \<and>
   scrollSpeed (controls (\<lambda>x. x)
     [(\<lparr> selected = ButtonB, hasVideo = False, hasFrame = True \<rparr>,
       \<lparr> button = ButtonB, action = scroll_speed_up, val = None, timestamp = 0 \<rparr>),
      (\<lparr> selected = ButtonB, hasVideo = False, hasFrame = True \<rparr>,
       \<lparr> button = ButtonB, action = scroll_speed_up, val = None, timestamp = 1 \<rparr>)]
     initialMediaState ButtonB) = 70 \<and>
   (10 :: real) \<le> 70 \<and> (70 :: real) \<le> 200"
  using scrollSpeed_within_bounds [of "\<lambda>x. x"]
  by (simp add: rounding_def mono_def handleMediaControlMessage_def
      initialMediaState_def initialMedia_def js_add_def Let_def)

subsection \<open>The other button\<close>

text \<open>
  C5. A control message addressed to one button leaves the media state of the other button
  as it was: the whole record, so each of its six fields.
\<close>

theorem other_button_unchanged:
  assumes "b \<noteq> button m"
  shows "fst (handleMediaControlMessage rnd e m st) b = st b"
  using assms by (cases "action m") (simp_all add: handleMediaControlMessage_def Let_def)

theorem other_button_unchanged_witness:
  "ButtonB \<noteq> button \<lparr> button = ButtonA, action = zoom_in, val = None, timestamp = 0 \<rparr> \<and>
   fst (handleMediaControlMessage (\<lambda>x. x)
          \<lparr> selected = ButtonA, hasVideo = True, hasFrame = False \<rparr>
          \<lparr> button = ButtonA, action = zoom_in, val = None, timestamp = 0 \<rparr>
          initialMediaState) ButtonB = initialMedia"
  using other_button_unchanged [of ButtonB
      "\<lparr> button = ButtonA, action = zoom_in, val = None, timestamp = 0 \<rparr>" "\<lambda>x. x"
      "\<lparr> selected = ButtonA, hasVideo = True, hasFrame = False \<rparr>" initialMediaState]
  by (simp add: initialMediaState_def)

section \<open>Properties of the display page\<close>

subsection \<open>The displayed item\<close>





subsection \<open>Bad input\<close>

lemma media_guard_falsy:
  assumes "getProp data f = Inr v" and "\<not> truthy v"
    and "f = ''button'' \<or> f = ''fileContent'' \<or> f = ''fileType''"
  shows "media_guard data = Inr False"
proof (cases data)
  case (JObj kvs)
  with assms show ?thesis
    by (auto simp: media_guard_def split: option.splits)
qed (use assms in \<open>simp_all add: media_guard_def\<close>)

text \<open>
  C10. Both display handlers, on a message that \<open>JSON.parse\<close> rejects, change nothing but
  the console, where the error is logged; on a parsed message of a media topic whose
  \<open>button\<close>, \<open>fileContent\<close> or \<open>fileType\<close> is falsy they change nothing at all.
\<close>

theorem bad_input_leaves_display_unchanged:
  "(JSON_parse message = None \<longrightarrow>
      handleMQTTMessage JSON_parse rnd e message topic st =
        Done (st\<lparr> console := console st @ [ErrorParsingMessage SyntaxError (take 100 message)] \<rparr>) \<and>
      handleMQTTMessage_plain JSON_parse message topic st =
        Done (st\<lparr> console := console st @ [ErrorParsingMessage SyntaxError (take 100 message)] \<rparr>)) \<and>
   (JSON_parse message = Some data \<and>
    topic \<noteq> ''home/buttonControl'' \<and> topic \<noteq> ''home/mediaControl'' \<and>
    (f = ''button'' \<or> f = ''fileContent'' \<or> f = ''fileType'') \<and>
    getProp data f = Inr v \<and> \<not> truthy v \<longrightarrow>
      handleMQTTMessage JSON_parse rnd e message topic st = Done st \<and>
      handleMQTTMessage_plain JSON_parse message topic st = Done st)"
proof (intro conjI impI)
  assume "JSON_parse message = None"
  then show "handleMQTTMessage JSON_parse rnd e message topic st =
      Done (st\<lparr> console := console st @ [ErrorParsingMessage SyntaxError (take 100 message)] \<rparr>)"
    and "handleMQTTMessage_plain JSON_parse message topic st =
      Done (st\<lparr> console := console st @ [ErrorParsingMessage SyntaxError (take 100 message)] \<rparr>)"
    by (simp_all add: handleMQTTMessage_def handleMQTTMessage_plain_def catch_error_def)
next
  assume a: "JSON_parse message = Some data \<and>
    topic \<noteq> ''home/buttonControl'' \<and> topic \<noteq> ''home/mediaControl'' \<and>
    (f = ''button'' \<or> f = ''fileContent'' \<or> f = ''fileType'') \<and>
    getProp data f = Inr v \<and> \<not> truthy v"
  then have g: "media_guard data = Inr False"
    using media_guard_falsy [of data f v] by blast
  from a g show "handleMQTTMessage JSON_parse rnd e message topic st = Done st"
    by (simp add: handleMQTTMessage_def)
  from a g show "handleMQTTMessage_plain JSON_parse message topic st = Done st"
    by (simp add: handleMQTTMessage_plain_def)
qed


theorem bad_input_leaves_display_unchanged_witness:
  "(\<lambda>s. if s = ''{}'' then Some (JObj []) else None) ''not json'' = None \<and>
   handleMQTTMessage (\<lambda>s. if s = ''{}'' then Some (JObj []) else None) (\<lambda>x. x)
     \<lparr> selected = ButtonA, hasVideo = False, hasFrame = False \<rparr>
     ''not json'' ''home/buttonA'' initialDisplay =
     Done (initialDisplay\<lparr> console := [ErrorParsingMessage SyntaxError ''not json''] \<rparr>) \<and>
   (\<lambda>s. if s = ''{}'' then Some (JObj []) else None) ''{}'' = Some (JObj []) \<and>
   ''home/buttonB'' \<noteq> ''home/buttonControl'' \<and> ''home/buttonB'' \<noteq> ''home/mediaControl'' \<and>
   getProp (JObj []) ''fileContent'' = Inr JUndefined \<and> \<not> truthy JUndefined \<and>
   handleMQTTMessage (\<lambda>s. if s = ''{}'' then Some (JObj []) else None) (\<lambda>x. x)
     \<lparr> selected = ButtonA, hasVideo = False, hasFrame = False \<rparr>
     ''{}'' ''home/buttonB'' initialDisplay = Done initialDisplay"
  using bad_input_leaves_display_unchanged
      [where JSON_parse = "\<lambda>s. if s = ''{}'' then Some (JObj []) else None"
        and message = "''not json''" and rnd = "\<lambda>x. x"
        and e = "\<lparr> selected = ButtonA, hasVideo = False, hasFrame = False \<rparr>"
        and topic = "''home/buttonA''" and st = initialDisplay]
    bad_input_leaves_display_unchanged
      [where JSON_parse = "\<lambda>s. if s = ''{}'' then Some (JObj []) else None"
        and message = "''{}''" and data = "JObj []" and topic = "''home/buttonB''"
        and f = "''fileContent''" and v = JUndefined and rnd = "\<lambda>x. x"
        and e = "\<lparr> selected = ButtonA, hasVideo = False, hasFrame = False \<rparr>"
        and st = initialDisplay]
  by (simp add: initialDisplay_def)

section \<open>Properties of the remote pages\<close>

lemma add_file_shape:
  "add_file (mt, ns, cs) f = (mt', ns', cs') \<Longrightarrow>
     length ns' = Suc (length ns) \<and> length cs' = Suc (length cs)"
  by (auto simp: add_file_def split: if_splits)

lemma foldl_add_file_length:
  "foldl add_file (mt, ns, cs) fs = (mt', ns', cs') \<Longrightarrow>
     length cs' = length cs + length fs \<and> length ns' = length ns + length fs"
proof (induction fs arbitrary: mt ns cs)
  case Nil
  then show ?case by simp
next
  case (Cons f fs)
  obtain mt1 ns1 cs1 where s: "add_file (mt, ns, cs) f = (mt1, ns1, cs1)"
    by (cases "add_file (mt, ns, cs) f") auto
  from Cons.prems s have "foldl add_file (mt1, ns1, cs1) fs = (mt', ns', cs')" by simp
  from Cons.IH [OF this] add_file_shape [OF s] show ?case by simp
qed

lemma processMediaUrl_mediaType:
  "snd (snd (processMediaUrl url selectedType)) = image \<or>
   snd (snd (processMediaUrl url selectedType)) = video"
  by (simp add: processMediaUrl_def split: option.splits)

text \<open>
  C9. Both remote pages publish on \<open>home/buttonA\<close> and \<open>home/buttonB\<close>. The URL
  remote's payload has a string as \<open>fileName\<close> and as \<open>fileContent\<close> and is not a
  \<open>FileMessage\<close>; the file remote's has arrays of strings and is one. The display page
  with media controls, which reads \<open>fileContent[0]\<close>, shows the first file of a file
  remote's payload, but of a URL remote's payload only the first character of the URL as
  the source of a video, and fails to render an image.
\<close>

theorem remote_payload_shapes:
  "(handleMediaUpload mediaUrl connected_r connectionStatus button_r
      mediaTypeSelection now = Publish topic m \<longrightarrow>
      topic = ''home/button'' @ button_key button_r \<and> \<not> is_FileMessage m \<and>
      (\<exists>n c t. getProp m ''fileName'' = Inr (JStr n) \<and>
         getProp m ''fileContent'' = Inr (JStr c) \<and>
         getProp m ''mediaType'' = Inr (JStr (mediaType_name t)) \<and>
         (t = image \<or> t = video) \<and>
         (render_payload st m =
           (if t = video
            then Inr ((if getProp m ''fileType'' = Inr (JStr ''video/youtube'') then YouTubeView else VideoView)
                        (if c = [] then JUndefined else JStr [hd c]))
            else Inl TypeError)))) \<and>
   (handleFileUpload files connected_r' connectionStatus' button_r' now' = Publish topic' m' \<longrightarrow>
      topic' = ''home/button'' @ button_key button_r' \<and> is_FileMessage m' \<and>
      (\<exists>ns cs. getProp m' ''fileName'' = Inr (JArr (map JStr ns)) \<and>
         getProp m' ''fileContent'' = Inr (JArr (map JStr cs)) \<and>
         length ns = length files \<and> length cs = length files \<and>
         getIndex (JArr (map JStr cs)) 0 = Inr (JStr (hd cs))))"
proof (intro conjI impI)
  assume a: "handleMediaUpload mediaUrl connected_r connectionStatus button_r
      mediaTypeSelection now = Publish topic m"
  obtain c ft t where p: "processMediaUrl mediaUrl mediaTypeSelection = (c, ft, t)"
    by (cases "processMediaUrl mediaUrl mediaTypeSelection") auto
  from processMediaUrl_mediaType [of mediaUrl mediaTypeSelection] p
  have tv: "t = image \<or> t = video" by simp
  from a p have m: "m = JObj [(''button'', JStr (button_key button_r)),
                      (''fileName'', JStr (fileName_of_url mediaUrl)),
                      (''fileContent'', JStr c),
                      (''fileType'', JStr ft),
                      (''mediaType'', JStr (mediaType_name t)),
                      (''timestamp'', JNum now)]"
    and t: "topic = ''home/button'' @ button_key button_r"
    by (auto simp: handleMediaUpload_def split: if_splits)
  show "topic = ''home/button'' @ button_key button_r" by (fact t)
  show "\<not> is_FileMessage m" by (simp add: m is_FileMessage_def)
  have r: "render_payload st m =
           (if t = video
            then Inr ((if getProp m ''fileType'' = Inr (JStr ''video/youtube'') then YouTubeView else VideoView)
                        (if c = [] then JUndefined else JStr [hd c]))
            else Inl TypeError)"
    using tv by (cases c) (auto simp: m render_payload_def renderContent_def Let_def)
  show "\<exists>n c t. getProp m ''fileName'' = Inr (JStr n) \<and>
         getProp m ''fileContent'' = Inr (JStr c) \<and>
         getProp m ''mediaType'' = Inr (JStr (mediaType_name t)) \<and>
         (t = image \<or> t = video) \<and>
         (render_payload st m =
           (if t = video
            then Inr ((if getProp m ''fileType'' = Inr (JStr ''video/youtube'') then YouTubeView else VideoView)
                        (if c = [] then JUndefined else JStr [hd c]))
            else Inl TypeError))"
    apply (rule exI [of _ "fileName_of_url mediaUrl"])
    apply (rule exI [of _ c])
    apply (rule exI [of _ t])
    using r tv by (simp add: m)
next
  assume a: "handleFileUpload files connected_r' connectionStatus' button_r' now' = Publish topic' m'"
  then have ne: "files \<noteq> []"
    by (auto simp: handleFileUpload_def split: if_splits)
  obtain mt ns cs where f: "foldl add_file (text_media, [], []) files = (mt, ns, cs)"
    by (cases "foldl add_file (text_media, [], []) files") auto
  from foldl_add_file_length [OF f] have len: "length ns = length files" "length cs = length files"
    by simp_all
  with ne have cs: "cs \<noteq> []" by auto
  from a f show "topic' = ''home/button'' @ button_key button_r'"
    by (auto simp: handleFileUpload_def split: if_splits)
  from a f have m: "getProp m' ''fileName'' = Inr (JArr (map JStr ns))"
     "getProp m' ''fileContent'' = Inr (JArr (map JStr cs))"
    by (auto simp: handleFileUpload_def split: if_splits)
  have "list_all is_string (map JStr ns)" "list_all is_string (map JStr cs)"
    by (simp_all add: list_all_iff)
  with a f show "is_FileMessage m'"
    by (cases button_r'; cases mt)
      (auto simp: handleFileUpload_def is_FileMessage_def split: if_splits)
  from cs have "getIndex (JArr (map JStr cs)) 0 = Inr (JStr (hd cs))"
    by (cases cs) simp_all
  with m len show "\<exists>ns cs. getProp m' ''fileName'' = Inr (JArr (map JStr ns)) \<and>
         getProp m' ''fileContent'' = Inr (JArr (map JStr cs)) \<and>
         length ns = length files \<and> length cs = length files \<and>
         getIndex (JArr (map JStr cs)) 0 = Inr (JStr (hd cs))"
    by blast
qed


theorem remote_payload_shapes_witness:
  "handleMediaUpload ''http://h/v.mp4'' True ''MQTT Connected''
      ButtonA auto 0 =
     Publish ''home/buttonA''
       (JObj [(''button'', JStr ''A''), (''fileName'', JStr ''v.mp4''),
              (''fileContent'', JStr ''http://h/v.mp4''), (''fileType'', JStr ''video/mp4''),
              (''mediaType'', JStr ''video''), (''timestamp'', JNum 0)]) \<and>
   render_payload initialDisplay
       (JObj [(''button'', JStr ''A''), (''fileName'', JStr ''v.mp4''),
              (''fileContent'', JStr ''http://h/v.mp4''), (''fileType'', JStr ''video/mp4''),
              (''mediaType'', JStr ''video''), (''timestamp'', JNum 0)]) = Inr (VideoView (JStr ''h'')) \<and>
   handleFileUpload
       [\<lparr> file_name = ''v.mp4'', file_type = ''video/mp4'', file_text = ''t'',
           object_url = ''blob:1'' \<rparr>] True ''MQTT Connected'' ButtonA 0 =
     Publish ''home/buttonA''
       (JObj [(''button'', JStr ''A''), (''fileName'', JArr [JStr ''v.mp4'']),
              (''fileContent'', JArr [JStr ''blob:1'']), (''fileType'', JStr ''video/mp4''),
              (''mediaType'', JStr ''video''), (''timestamp'', JNum 0),
              (''isLocalFile'', JBool True), (''filePath'', JStr ''v.mp4'')]) \<and>
   render_payload initialDisplay
       (JObj [(''button'', JStr ''A''), (''fileName'', JArr [JStr ''v.mp4'']),
              (''fileContent'', JArr [JStr ''blob:1'']), (''fileType'', JStr ''video/mp4''),
              (''mediaType'', JStr ''video''), (''timestamp'', JNum 0),
              (''isLocalFile'', JBool True), (''filePath'', JStr ''v.mp4'')]) =
     Inr (VideoView (JStr ''blob:1''))"
  using remote_payload_shapes
      [where mediaUrl = "''http://h/v.mp4''"
        and connected_r = True and connectionStatus = "''MQTT Connected''" and button_r = ButtonA
        and mediaTypeSelection = auto and now = 0 and topic = "''home/buttonA''"
        and st = initialDisplay
        and m = "JObj [(''button'', JStr ''A''), (''fileName'', JStr ''v.mp4''),
              (''fileContent'', JStr ''http://h/v.mp4''), (''fileType'', JStr ''video/mp4''),
              (''mediaType'', JStr ''video''), (''timestamp'', JNum 0)]"
        and files = "[\<lparr> file_name = ''v.mp4'', file_type = ''video/mp4'', file_text = ''t'',
           object_url = ''blob:1'' \<rparr>]"
        and connected_r' = True and connectionStatus' = "''MQTT Connected''" and button_r' = ButtonA
        and now' = 0 and topic' = "''home/buttonA''"
        and m' = "JObj [(''button'', JStr ''A''), (''fileName'', JArr [JStr ''v.mp4'']),
              (''fileContent'', JArr [JStr ''blob:1'']), (''fileType'', JStr ''video/mp4''),
              (''mediaType'', JStr ''video''), (''timestamp'', JNum 0),
              (''isLocalFile'', JBool True), (''filePath'', JStr ''v.mp4'')]"]
  by (simp add: handleMediaUpload_def handleFileUpload_def fileName_of_url_def last_segment_def
      processMediaUrl_def video_extension_def extension_def lower_def
      add_file_def startsWith_def render_payload_def renderContent_def initialDisplay_def Let_def)

section \<open>Properties of the MQTT client\<close>

subsection \<open>The shape of the state\<close>

lemma nth_update_cases: "(xs[i := x]) ! j = (if i = j \<and> i < length xs then x else xs ! j)"
  by (cases "i < length xs") (simp_all add: nth_list_update list_update_beyond)

lemma shape_init: "shape initialClient"
  by (simp add: shape_def initialClient_def)

lemma shape_on_close: "shape s \<Longrightarrow> shape (on_close c s)"
  by (auto simp: shape_def on_close_def)

lemma shape_end_client: "shape s \<Longrightarrow> shape (end_client s)"
  by (auto simp: shape_def end_client_def nth_update_cases split: option.splits)

lemma shape_clearTimeout: "shape s \<Longrightarrow> shape (clearTimeout c s)"
  by (auto simp: shape_def clearTimeout_def nth_update_cases)

lemma shape_finish: "shape s \<Longrightarrow> shape (finish d p s)"
  by (auto simp: shape_def finish_def)

lemma shape_setup: "shape s \<Longrightarrow> shape (setupMessageHandler s)"
  by (auto simp: shape_def setupMessageHandler_def nth_update_cases split: option.splits)

lemma shape_upd:
  assumes "shape s" "owner a = owner (attempts s ! c)" "rest a = rest (attempts s ! c)"
  shows "shape (s\<lparr> attempts := (attempts s)[c := a] \<rparr>)"
  using assms by (auto simp: shape_def nth_update_cases)

lemma shape_resolve: "shape s \<Longrightarrow> shape (resolve c s)"
  unfolding resolve_def
  by (auto intro!: shape_finish shape_setup shape_upd)

lemma shape_reject: "shape s \<Longrightarrow> c < length (attempts s) \<Longrightarrow> shape (reject c msg s)"
  unfolding reject_def
  by (auto simp: shape_def finish_def nth_update_cases)

lemma shape_on_connect: "shape s \<Longrightarrow> shape (on_connect c s)"
  unfolding on_connect_def
  apply (auto intro!: shape_resolve)
  apply (auto simp: shape_def clearTimeout_def nth_update_cases)
  done

lemma length_end_client [simp]: "length (attempts (end_client s)) = length (attempts s)"
  by (simp add: end_client_def split: option.splits)

lemma length_clearTimeout [simp]: "length (attempts (clearTimeout c s)) = length (attempts s)"
  by (simp add: clearTimeout_def)

lemma shape_on_error: "shape s \<Longrightarrow> shape (on_error c msg s)"
  unfolding on_error_def
  by (auto intro!: shape_reject shape_end_client shape_clearTimeout)

lemma shape_on_timeout: "shape s \<Longrightarrow> shape (on_timeout c s)"
  unfolding on_timeout_def
  by (auto intro!: shape_reject shape_end_client shape_upd)

lemma shape_connect: "shape s \<Longrightarrow> shape (snd (connect rt s))"
  by (auto simp: connect_def shape_def configs_def connectToBroker_def Let_def nth_append
      split: option.splits nat.splits)

lemma shape_disconnect: "shape s \<Longrightarrow> shape (disconnect s)"
  using shape_end_client [of s]
  by (auto simp: disconnect_def shape_def split: option.splits)

lemma current_client:
  "shape s \<Longrightarrow> c < length (attempts s) \<Longrightarrow> client s = Some (length (attempts s) - 1)"
  by (cases "length (attempts s)") (auto simp: shape_def)

lemma shape_at:
  "shape s \<Longrightarrow> c < length (attempts s) \<Longrightarrow>
     owner (attempts s ! c) = c \<and> rest (attempts s ! c) = [] \<and>
     length (doConnects s) = length (attempts s)"
  by (simp add: shape_def)

subsection \<open>One attempt at a time\<close>

lemma inv_init: "client_inv initialClient"
  by (simp add: client_inv_def shape_init pend_last_def) (simp add: initialClient_def)

lemma list_all_update: "list_all P xs \<Longrightarrow> P x \<Longrightarrow> list_all P (xs[i := x])"
  by (auto simp: list_all_length nth_update_cases)

lemma map_update_same: "f y = f (xs ! k) \<Longrightarrow> map f (xs[k := y]) = map f xs"
  by (auto simp: list_eq_iff_nth_eq nth_update_cases)

lemma update_last: "xs \<noteq> [] \<Longrightarrow> xs[length xs - 1 := x] = butlast xs @ [x]"
  by (induction xs rule: rev_induct) simp_all

lemma pend_last_pending:
  assumes "pend_last rs cp conn" "c < length rs" "rs ! c = Pending"
  shows "cp = Some c \<and> Suc c = length rs \<and> \<not> conn"
proof (cases cp)
  case None
  with assms show ?thesis by (auto simp: pend_last_def in_set_conv_nth)
next
  case (Some d)
  with assms have b: "Pending \<notin> set (butlast rs)" and d: "Suc d = length rs" and "\<not> conn"
    by (simp_all add: pend_last_def)
  have "c = d"
  proof (rule ccontr)
    assume "c \<noteq> d"
    with assms(2) d have "c < length (butlast rs)" by simp
    with b assms(3) show False
      by (metis nth_butlast nth_mem)
  qed
  with Some d \<open>\<not> conn\<close> show ?thesis by simp
qed

lemma pend_last_settle:
  assumes "pend_last rs (Some c) conn" "p \<noteq> Pending"
  shows "pend_last (rs[c := p]) None conn'"
proof -
  from assms have ne: "rs \<noteq> []" and b: "Pending \<notin> set (butlast rs)" and c: "c = length rs - 1"
    by (auto simp: pend_last_def)
  from ne have "rs[c := p] = butlast rs @ [p]"
    unfolding c by (rule update_last)
  with b assms(2) show ?thesis by (auto simp: pend_last_def)
qed

lemma pend_last_start:
  assumes "pend_last rs None conn"
  shows "pend_last (rs @ [Pending]) (Some (length rs)) False"
  using assms by (simp add: pend_last_def)

lemma pend_last_offline: "pend_last rs cp conn \<Longrightarrow> pend_last rs cp False"
  by (simp add: pend_last_def split: option.splits)

lemma inv_pending:
  assumes "client_inv s" "c < length (attempts s)" "result (attempts s ! c) = Pending"
  shows "connectPromise s = Some c \<and> Suc c = length (attempts s) \<and> \<not> isConnected s \<and>
         client s = Some c \<and> owner (attempts s ! c) = c \<and> rest (attempts s ! c) = [] \<and>
         \<not> connected_once (attempts s ! c) \<and> handlers (attempts s ! c) = 0 \<and>
         length (doConnects s) = length (attempts s)"
proof -
  from assms have sh: "shape s" and g: "list_all good (attempts s)"
    and p: "pend_last (map result (attempts s)) (connectPromise s) (isConnected s)"
    by (simp_all add: client_inv_def)
  from pend_last_pending [OF p] assms(2,3)
  have 1: "connectPromise s = Some c \<and> Suc c = length (attempts s) \<and> \<not> isConnected s" by simp
  from g assms(2,3) have 2: "\<not> connected_once (attempts s ! c) \<and> handlers (attempts s ! c) = 0"
    by (simp add: list_all_length good_def)
  from current_client [OF sh assms(2)] 1 have 3: "client s = Some c" by auto
  from 1 2 3 shape_at [OF sh assms(2)] show ?thesis by simp
qed

lemma inv_settled:
  assumes "client_inv s" "c < length (attempts s)" "result (attempts s ! c) \<noteq> Pending"
  shows "ended (attempts s ! c) \<or> connected_once (attempts s ! c)"
  using assms by (simp add: client_inv_def list_all_length good_def)

lemma on_connect_enabled:
  assumes "client_inv s" "c < length (attempts s)" "\<not> ended (attempts s ! c)"
    "\<not> connected_once (attempts s ! c)"
  shows "result (attempts s ! c) = Pending"
  using inv_settled [OF assms(1,2)] assms(3,4) by blast

lemma on_connect_eq:
  assumes "client_inv s" "c < length (attempts s)" "\<not> ended (attempts s ! c)"
    "\<not> connected_once (attempts s ! c)"
  shows "on_connect c s =
     s\<lparr> attempts := (attempts s)[c := (attempts s ! c)
            \<lparr> timer := None, connected_once := True, result := Fulfilled, handlers := 1 \<rparr>],
        calls := calls s @ [ClearTimeout c], isConnected := True,
        doConnects := (doConnects s)[c := Fulfilled], connectPromise := None \<rparr>"
  using inv_pending [OF assms(1,2) on_connect_enabled [OF assms]] assms(2,3,4)
    on_connect_enabled [OF assms]
  by (simp add: on_connect_def resolve_def finish_def setupMessageHandler_def clearTimeout_def)

lemma inv_on_connect:
  assumes "client_inv s"
  shows "client_inv (on_connect c s)"
proof (cases "c < length (attempts s) \<and> \<not> ended (attempts s ! c) \<and> \<not> connected_once (attempts s ! c)")
  case False
  with assms show ?thesis by (auto simp: on_connect_def)
next
  case True
  then have c: "c < length (attempts s)" and e: "\<not> ended (attempts s ! c)"
    and o: "\<not> connected_once (attempts s ! c)" by simp_all
  note eq = on_connect_eq [OF assms c e o]
  note pe = inv_pending [OF assms c on_connect_enabled [OF assms c e o]]
  from assms have sh: "shape s" and g: "list_all good (attempts s)"
    and p: "pend_last (map result (attempts s)) (connectPromise s) (isConnected s)"
    by (simp_all add: client_inv_def)
  have 1: "shape (on_connect c s)" using sh by (rule shape_on_connect)
  have 2: "list_all good (attempts (on_connect c s))"
    unfolding eq using g pe by (simp add: list_all_update good_def)
  have 3: "pend_last (map result (attempts (on_connect c s))) (connectPromise (on_connect c s))
        (isConnected (on_connect c s))"
    unfolding eq using p pe by (simp add: map_update pend_last_settle)
  have 4: "attempts (on_connect c s) \<noteq> []"
    unfolding eq using c by auto
  from 1 2 3 4 show ?thesis by (simp add: client_inv_def)
qed

lemma on_error_eq:
  assumes "client_inv s" "c < length (attempts s)"
  shows "on_error c msg s =
    (if result (attempts s ! c) = Pending then
       s\<lparr> attempts := (attempts s)[c := (attempts s ! c)
            \<lparr> timer := None, ended := True, result := Rejected msg \<rparr>],
          calls := calls s @ [ClearTimeout c, ClientEnd c],
          failures := failures s @ [(broker_name (cfg (attempts s ! c)), msg)],
          doConnects := (doConnects s)[c := Rejected ''All connection attempts failed''],
          connectPromise := None \<rparr>
     else
       s\<lparr> attempts := (attempts s)
            [c := (attempts s ! c)\<lparr> timer := None \<rparr>,
             length (attempts s) - 1 :=
               ((attempts s)[c := (attempts s ! c)\<lparr> timer := None \<rparr>] ! (length (attempts s) - 1))
                 \<lparr> ended := True \<rparr>],
          calls := calls s @ [ClearTimeout c, ClientEnd (length (attempts s) - 1)] \<rparr>)"
proof (cases "result (attempts s ! c) = Pending")
  case True
  from inv_pending [OF assms True] assms(2) True show ?thesis
    by (simp add: on_error_def reject_def finish_def end_client_def clearTimeout_def)
next
  case False
  from assms have sh: "shape s" by (simp add: client_inv_def)
  have n: "length (attempts s) - 1 < length (attempts s)" using assms(2) by simp
  from current_client [OF sh assms(2)] assms(2) False n show ?thesis
    by (simp add: on_error_def reject_def end_client_def clearTimeout_def nth_update_cases)
qed

lemma good_timer: "good a \<Longrightarrow> good (a\<lparr> timer := t \<rparr>)"
  by (simp add: good_def)

lemma good_ended: "good a \<Longrightarrow> good (a\<lparr> ended := True \<rparr>)"
  by (auto simp: good_def)

lemma good_nth: "list_all good xs \<Longrightarrow> i < length xs \<Longrightarrow> good (xs ! i)"
  by (simp add: list_all_length)

lemma inv_on_error:
  assumes "client_inv s"
  shows "client_inv (on_error c msg s)"
proof (cases "c < length (attempts s)")
  case False
  with assms show ?thesis by (simp add: on_error_def)
next
  case c: True
  from assms have sh: "shape s" and g: "list_all good (attempts s)"
    and p: "pend_last (map result (attempts s)) (connectPromise s) (isConnected s)"
    by (simp_all add: client_inv_def)
  have n: "length (attempts s) - 1 < length (attempts s)" using c by simp
  have 1: "shape (on_error c msg s)" using sh by (rule shape_on_error)
  note eq = on_error_eq [OF assms c]
  show ?thesis
  proof (cases "result (attempts s ! c) = Pending")
    case True
    note pe = inv_pending [OF assms c True]
    have 2: "list_all good (attempts (on_error c msg s))"
      unfolding eq using g True pe by (simp add: list_all_update good_def)
    have 3: "pend_last (map result (attempts (on_error c msg s))) (connectPromise (on_error c msg s))
        (isConnected (on_error c msg s))"
      unfolding eq using p pe True by (simp add: map_update pend_last_settle)
    have 4: "attempts (on_error c msg s) \<noteq> []"
      unfolding eq using c True by auto
    from 1 2 3 4 show ?thesis by (simp add: client_inv_def)
  next
    case False
    have 2: "list_all good (attempts (on_error c msg s))"
      unfolding eq using g False c n
      by (simp add: list_all_update good_timer good_ended good_nth nth_update_cases)
    have 3: "pend_last (map result (attempts (on_error c msg s))) (connectPromise (on_error c msg s))
        (isConnected (on_error c msg s))"
      unfolding eq using p False c n by (simp add: map_update_same nth_update_cases)
    have 4: "attempts (on_error c msg s) \<noteq> []"
      unfolding eq using c False by auto
    from 1 2 3 4 show ?thesis by (simp add: client_inv_def)
  qed
qed

lemma on_timeout_eq:
  assumes "client_inv s" "c < length (attempts s)" "timer (attempts s ! c) \<noteq> None"
  shows "on_timeout c s =
    (if result (attempts s ! c) = Pending then
       s\<lparr> attempts := (attempts s)[c := (attempts s ! c)
            \<lparr> timer := None, ended := True,
              result := Rejected (timeout_message (broker_name (cfg (attempts s ! c)))) \<rparr>],
          calls := calls s @ [ClientEnd c],
          failures := failures s @ [(broker_name (cfg (attempts s ! c)),
             timeout_message (broker_name (cfg (attempts s ! c))))],
          doConnects := (doConnects s)[c := Rejected ''All connection attempts failed''],
          connectPromise := None \<rparr>
     else
       s\<lparr> attempts := (attempts s)
            [c := (attempts s ! c)\<lparr> timer := None \<rparr>,
             length (attempts s) - 1 :=
               ((attempts s)[c := (attempts s ! c)\<lparr> timer := None \<rparr>] ! (length (attempts s) - 1))
                 \<lparr> ended := True \<rparr>],
          calls := calls s @ [ClientEnd (length (attempts s) - 1)] \<rparr>)"
proof (cases "result (attempts s ! c) = Pending")
  case True
  from inv_pending [OF assms(1,2) True] assms(2,3) True show ?thesis
    by (simp add: on_timeout_def reject_def finish_def end_client_def)
next
  case False
  from assms have sh: "shape s" by (simp add: client_inv_def)
  have n: "length (attempts s) - 1 < length (attempts s)" using assms(2) by simp
  from current_client [OF sh assms(2)] assms(2,3) False n show ?thesis
    by (simp add: on_timeout_def reject_def end_client_def nth_update_cases)
qed

lemma inv_on_timeout:
  assumes "client_inv s"
  shows "client_inv (on_timeout c s)"
proof (cases "c < length (attempts s) \<and> timer (attempts s ! c) \<noteq> None")
  case False
  with assms show ?thesis by (auto simp: on_timeout_def)
next
  case ct: True
  then have c: "c < length (attempts s)" and t: "timer (attempts s ! c) \<noteq> None" by simp_all
  from assms have sh: "shape s" and g: "list_all good (attempts s)"
    and p: "pend_last (map result (attempts s)) (connectPromise s) (isConnected s)"
    by (simp_all add: client_inv_def)
  have n: "length (attempts s) - 1 < length (attempts s)" using c by simp
  have 1: "shape (on_timeout c s)" using sh by (rule shape_on_timeout)
  note eq = on_timeout_eq [OF assms c t]
  show ?thesis
  proof (cases "result (attempts s ! c) = Pending")
    case True
    note pe = inv_pending [OF assms c True]
    have 2: "list_all good (attempts (on_timeout c s))"
      unfolding eq using g True pe by (simp add: list_all_update good_def)
    have 3: "pend_last (map result (attempts (on_timeout c s))) (connectPromise (on_timeout c s))
        (isConnected (on_timeout c s))"
      unfolding eq using p pe True by (simp add: map_update pend_last_settle)
    have 4: "attempts (on_timeout c s) \<noteq> []"
      unfolding eq using c True by auto
    from 1 2 3 4 show ?thesis by (simp add: client_inv_def)
  next
    case False
    have 2: "list_all good (attempts (on_timeout c s))"
      unfolding eq using g False c n
      by (simp add: list_all_update good_timer good_ended good_nth nth_update_cases)
    have 3: "pend_last (map result (attempts (on_timeout c s))) (connectPromise (on_timeout c s))
        (isConnected (on_timeout c s))"
      unfolding eq using p False c n by (simp add: map_update_same nth_update_cases)
    have 4: "attempts (on_timeout c s) \<noteq> []"
      unfolding eq using c False by auto
    from 1 2 3 4 show ?thesis by (simp add: client_inv_def)
  qed
qed

lemma inv_on_close: "client_inv s \<Longrightarrow> client_inv (on_close c s)"
  by (auto simp: client_inv_def on_close_def shape_def intro: pend_last_offline)

lemma inv_disconnect:
  assumes "client_inv s"
  shows "client_inv (disconnect s)"
proof (cases "client s")
  case None
  with assms show ?thesis by (simp add: disconnect_def)
next
  case (Some k)
  from assms have sh: "shape s" and g: "list_all good (attempts s)"
    and p: "pend_last (map result (attempts s)) (connectPromise s) (isConnected s)"
    by (simp_all add: client_inv_def)
  from Some sh have k: "k < length (attempts s)"
    by (cases "length (attempts s)") (auto simp: shape_def)
  have eq: "disconnect s =
     s\<lparr> attempts := (attempts s)[k := (attempts s ! k)\<lparr> ended := True \<rparr>],
        calls := calls s @ [ClientEnd k], isConnected := False, subscribers := Map.empty \<rparr>"
    using Some by (simp add: disconnect_def end_client_def)
  have 1: "shape (disconnect s)" using sh by (rule shape_disconnect)
  have 2: "list_all good (attempts (disconnect s))"
    unfolding eq using g k by (simp add: list_all_update good_ended good_nth)
  have 3: "pend_last (map result (attempts (disconnect s))) (connectPromise (disconnect s))
        (isConnected (disconnect s))"
    unfolding eq using p by (simp add: map_update_same pend_last_offline)
  have 4: "\<not> isConnected (disconnect s)"
    unfolding eq by simp
  from 1 2 3 4 show ?thesis by (simp add: client_inv_def)
qed

lemma connect_start_eq:
  assumes "connectPromise s = None" "\<not> (client s \<noteq> None \<and> isConnected s)"
  shows "connect rt s =
     (Started (length (doConnects s)),
      s\<lparr> doConnects := doConnects s @ [Pending],
         connectPromise := Some (length (doConnects s)),
         client := Some (length (attempts s)),
         currentBroker := NEXT_PUBLIC_MQTT_BROKER_NAME rt,
         attempts := attempts s @
           [\<lparr> owner = length (doConnects s), rest = [], cfg = hd (configs rt (length (doConnects s))),
              result = Pending, timer = Some 10000, ended = False, connected_once = False,
              handlers = 0 \<rparr>],
         calls := calls s @
           [MqttConnect (NEXT_PUBLIC_MQTT_BROKER_URL rt)
              (broker_options (hd (configs rt (length (doConnects s))))),
            SetTimeout (length (attempts s)) 10000] \<rparr>)"
  using assms by (auto simp: connect_def Let_def configs_def connectToBroker_def)

lemma inv_connect:
  assumes "client_inv s"
  shows "client_inv (snd (connect rt s))"
proof (cases "connectPromise s = None \<and> \<not> (client s \<noteq> None \<and> isConnected s)")
  case False
  with assms show ?thesis by (auto simp: connect_def split: option.splits)
next
  case True
  then have cp: "connectPromise s = None" and nc: "\<not> (client s \<noteq> None \<and> isConnected s)"
    by simp_all
  from assms have sh: "shape s" and g: "list_all good (attempts s)"
    and p: "pend_last (map result (attempts s)) (connectPromise s) (isConnected s)"
    and e: "attempts s = [] \<longrightarrow> \<not> isConnected s"
    by (simp_all add: client_inv_def)
  have off: "\<not> isConnected s"
  proof (cases "attempts s = []")
    case True
    with e show ?thesis by simp
  next
    case False
    then have "client s \<noteq> None" using sh by (cases "length (attempts s)") (auto simp: shape_def)
    with nc show ?thesis by simp
  qed
  note eq = connect_start_eq [OF cp nc]
  have 1: "shape (snd (connect rt s))" using sh by (rule shape_connect)
  have 2: "list_all good (attempts (snd (connect rt s)))"
    unfolding eq using g by (simp add: good_def)
  have 3: "pend_last (map result (attempts (snd (connect rt s)))) (connectPromise (snd (connect rt s)))
        (isConnected (snd (connect rt s)))"
    unfolding eq using p cp off sh pend_last_start [of "map result (attempts s)" "isConnected s"]
    by (simp add: shape_def)
  have 4: "attempts (snd (connect rt s)) \<noteq> []"
    unfolding eq by simp
  from 1 2 3 4 show ?thesis by (simp add: client_inv_def)
qed

text \<open>The events that leave connecting alone.\<close>

lemma inv_cong:
  assumes "client_inv s" "attempts s' = attempts s" "doConnects s' = doConnects s" "client s' = client s"
    "connectPromise s' = connectPromise s" "isConnected s' = isConnected s"
  shows "client_inv s'"
  using assms by (simp add: client_inv_def shape_def)

lemma inv_frames: "client_inv s \<Longrightarrow> client_inv (s\<lparr> frames := fs \<rparr>)"
  by (erule inv_cong) simp_all

lemma inv_call_subscribe: "client_inv s \<Longrightarrow> client_inv (call_subscribe rt topic callback s)"
  using inv_connect [of s rt]
  by (cases "connect rt s") (simp add: call_subscribe_def inv_frames)

lemma inv_call_publish: "client_inv s \<Longrightarrow> client_inv (call_publish rt topic message s)"
  using inv_connect [of s rt]
  by (cases "connect rt s") (simp add: call_publish_def inv_frames)

lemma inv_resume: "client_inv s \<Longrightarrow> client_inv (resume k s)"
  by (erule inv_cong)
    (simp_all add: resume_def subscribe_connected_def publish_connected_def set_frame_def
      split: frame.splits promise.splits option.splits)

lemma inv_acknowledge: "client_inv s \<Longrightarrow> client_inv (acknowledge k err s)"
  by (erule inv_cong)
    (simp_all add: acknowledge_def set_frame_def split: frame.splits option.splits)

lemma inv_unsubscribe: "client_inv s \<Longrightarrow> client_inv (unsubscribe topic callback s)"
  by (erule inv_cong) (simp_all add: unsubscribe_def Let_def split: option.splits)

lemma message_handler_fields:
  "attempts (message_handler rt topic message s) = attempts s \<and>
   doConnects (message_handler rt topic message s) = doConnects s \<and>
   client (message_handler rt topic message s) = client s \<and>
   connectPromise (message_handler rt topic message s) = connectPromise s \<and>
   isConnected (message_handler rt topic message s) = isConnected s \<and>
   subscribers (message_handler rt topic message s) = subscribers s \<and>
   calls (message_handler rt topic message s) = calls s \<and>
   frames (message_handler rt topic message s) = frames s"
  by (simp add: message_handler_def split: option.splits)

lemma inv_message_handler: "client_inv s \<Longrightarrow> client_inv (message_handler rt topic message s)"
  by (erule inv_cong) (simp_all add: message_handler_fields)

lemma inv_message_handlers: "client_inv s \<Longrightarrow> client_inv ((message_handler rt topic message ^^ n) s)"
  by (induction n) (simp_all add: inv_message_handler)

lemma inv_on_message: "client_inv s \<Longrightarrow> client_inv (on_message rt c topic message s)"
  by (simp add: on_message_def inv_message_handlers)

lemma inv_step: "client_inv s \<Longrightarrow> client_inv (step rt ev s)"
  by (cases ev)
    (simp_all add: inv_connect inv_call_subscribe inv_call_publish inv_unsubscribe inv_disconnect
      inv_resume inv_acknowledge inv_on_connect inv_on_error inv_on_timeout inv_on_close
      inv_on_message)

lemma inv_run: "client_inv s \<Longrightarrow> client_inv (run rt evs s)"
  by (induction evs arbitrary: s) (simp_all add: inv_step)

subsection \<open>The promise of \<open>doConnect\<close> follows its attempt\<close>

lemma tracked_cong:
  "tracked s \<Longrightarrow> attempts s' = attempts s \<Longrightarrow> doConnects s' = doConnects s \<Longrightarrow> tracked s'"
  by (simp add: tracked_def)

lemma tracked_on_connect:
  assumes "client_inv s" "tracked s"
  shows "tracked (on_connect c s)"
proof (cases "c < length (attempts s) \<and> \<not> ended (attempts s ! c) \<and> \<not> connected_once (attempts s ! c)")
  case False
  with assms show ?thesis by (auto simp: on_connect_def)
next
  case True
  then have eq: "on_connect c s =
     s\<lparr> attempts := (attempts s)[c := (attempts s ! c)
            \<lparr> timer := None, connected_once := True, result := Fulfilled, handlers := 1 \<rparr>],
        calls := calls s @ [ClearTimeout c], isConnected := True,
        doConnects := (doConnects s)[c := Fulfilled], connectPromise := None \<rparr>"
    using on_connect_eq [OF assms(1)] by simp
  show ?thesis
    unfolding eq using assms(2) by (simp add: tracked_def map_update track_def)
qed

lemma tracked_on_error:
  assumes "client_inv s" "tracked s"
  shows "tracked (on_error c msg s)"
proof (cases "c < length (attempts s)")
  case False
  with assms show ?thesis by (simp add: on_error_def)
next
  case True
  have n: "length (attempts s) - 1 < length (attempts s)" using True by simp
  show ?thesis
  proof (cases "result (attempts s ! c) = Pending")
    case p: True
    then show ?thesis
      unfolding on_error_eq [OF assms(1) True] using assms(2)
      by (simp add: tracked_def map_update track_def)
  next
    case False
    then show ?thesis
      unfolding on_error_eq [OF assms(1) True] using assms(2) True n
      by (simp add: tracked_def map_update_same nth_update_cases)
  qed
qed

lemma tracked_on_timeout:
  assumes "client_inv s" "tracked s"
  shows "tracked (on_timeout c s)"
proof (cases "c < length (attempts s) \<and> timer (attempts s ! c) \<noteq> None")
  case False
  with assms show ?thesis by (auto simp: on_timeout_def)
next
  case True
  then have c: "c < length (attempts s)" and t: "timer (attempts s ! c) \<noteq> None" by simp_all
  have n: "length (attempts s) - 1 < length (attempts s)" using c by simp
  show ?thesis
  proof (cases "result (attempts s ! c) = Pending")
    case True
    then show ?thesis
      unfolding on_timeout_eq [OF assms(1) c t] using assms(2)
      by (simp add: tracked_def map_update track_def)
  next
    case False
    then show ?thesis
      unfolding on_timeout_eq [OF assms(1) c t] using assms(2) c n
      by (simp add: tracked_def map_update_same nth_update_cases)
  qed
qed

lemma tracked_connect:
  assumes "tracked s"
  shows "tracked (snd (connect rt s))"
proof (cases "connectPromise s = None \<and> \<not> (client s \<noteq> None \<and> isConnected s)")
  case False
  with assms show ?thesis by (auto simp: connect_def split: option.splits)
next
  case True
  then show ?thesis
    using assms connect_start_eq [of s rt] by (simp add: tracked_def track_def)
qed

lemma tracked_disconnect: "tracked s \<Longrightarrow> tracked (disconnect s)"
  by (auto simp: tracked_def disconnect_def end_client_def map_update_same split: option.splits)

lemma tracked_step:
  assumes "client_inv s" "tracked s"
  shows "tracked (step rt ev s)"
proof (cases ev)
  case CallConnect
  with assms show ?thesis by (simp add: tracked_connect)
next
  case (CallSubscribe topic callback)
  with tracked_connect [OF assms(2), of rt] show ?thesis
    by (cases "connect rt s") (simp add: call_subscribe_def tracked_def)
next
  case (CallPublish topic message)
  with tracked_connect [OF assms(2), of rt] show ?thesis
    by (cases "connect rt s") (simp add: call_publish_def tracked_def)
next
  case (CallUnsubscribe topic callback)
  with assms(2) show ?thesis
    by (auto elim!: tracked_cong simp: unsubscribe_def Let_def split: option.splits)
next
  case CallDisconnect
  with assms show ?thesis by (simp add: tracked_disconnect)
next
  case (Resume k)
  with assms(2) show ?thesis
    by (auto elim!: tracked_cong
        simp: resume_def subscribe_connected_def publish_connected_def set_frame_def
        split: frame.splits promise.splits option.splits)
next
  case (Acknowledge k err)
  with assms(2) show ?thesis
    by (auto elim!: tracked_cong simp: acknowledge_def set_frame_def
        split: frame.splits option.splits)
next
  case (OnConnect c)
  with assms show ?thesis by (simp add: tracked_on_connect)
next
  case (OnError c msg)
  with assms show ?thesis by (simp add: tracked_on_error)
next
  case (OnTimeout c)
  with assms show ?thesis by (simp add: tracked_on_timeout)
next
  case (OnClose c)
  with assms(2) show ?thesis by (simp add: on_close_def tracked_def)
next
  case (OnOffline c)
  with assms(2) show ?thesis by (simp add: on_close_def tracked_def)
next
  case (OnMessage c topic message)
  have "attempts ((message_handler rt topic message ^^ n) s) = attempts s \<and>
        doConnects ((message_handler rt topic message ^^ n) s) = doConnects s" for n
    by (induction n) (simp_all add: message_handler_fields)
  with OnMessage assms(2) show ?thesis
    by (simp add: on_message_def tracked_def)
qed

lemma reachable:
  "client_inv (run rt evs initialClient) \<and> tracked (run rt evs initialClient)"
proof -
  have "client_inv s \<and> tracked s \<Longrightarrow> client_inv (run rt evs s) \<and> tracked (run rt evs s)" for s
    by (induction evs arbitrary: s) (simp_all add: inv_step tracked_step)
  moreover have "tracked initialClient"
    by (simp add: tracked_def initialClient_def)
  ultimately show ?thesis
    using inv_init by blast
qed

lemma in_flight_last:
  assumes "client_inv s"
  shows "in_flight s = (case connectPromise s of None \<Rightarrow> [] | Some d \<Rightarrow> [d])"
proof -
  from assms
  have p: "pend_last (map result (attempts s)) (connectPromise s) (isConnected s)"
    by (simp add: client_inv_def)
  show ?thesis
  proof (cases "connectPromise s")
    case None
    with p have "Pending \<notin> set (map result (attempts s))" by (simp add: pend_last_def)
    then have "\<forall>c < length (attempts s). result (attempts s ! c) \<noteq> Pending"
      by (metis image_eqI list.set_map nth_mem)
    with None show ?thesis by (simp add: in_flight_def filter_empty_conv)
  next
    case (Some d)
    with p have ne: "attempts s \<noteq> []" and l: "result (last (attempts s)) = Pending"
      and b: "Pending \<notin> set (butlast (map result (attempts s)))" and d: "Suc d = length (attempts s)"
      by (auto simp add: pend_last_def last_map)
    have old: "\<forall>c < d. result (attempts s ! c) \<noteq> Pending"
    proof (intro allI impI)
      fix c assume "c < d"
      with d have c: "c < length (butlast (map result (attempts s)))" by simp
      then have "butlast (map result (attempts s)) ! c \<in> set (butlast (map result (attempts s)))"
        by (rule nth_mem)
      with b c d \<open>c < d\<close> show "result (attempts s ! c) \<noteq> Pending"
        by (auto simp: nth_butlast)
    qed
    from d have "length (attempts s) - 1 = d" by simp
    with ne l have new: "result (attempts s ! d) = Pending"
      by (simp add: last_conv_nth)
    have "[0 ..< length (attempts s)] = [0 ..< d] @ [d]" using d by (metis upt_Suc_append zero_le)
    with old new Some show ?thesis
      by (simp add: in_flight_def filter_empty_conv)
  qed
qed

lemmas client_defs =
  connect_def configs_def connectToBroker_def finish_def setupMessageHandler_def end_client_def
  resolve_def reject_def clearTimeout_def on_connect_def on_error_def on_timeout_def on_close_def
  message_handler_def on_message_def set_frame_def call_subscribe_def call_publish_def
  awaited_state_def subscribe_connected_def publish_connected_def resume_def acknowledge_def
  unsubscribe_def disconnect_def initialClient_def in_flight_def listeners_def

text \<open>
  C2. In every state a run of the client can reach, at most one attempt is in flight. A call
  of \<open>connect\<close> made while an attempt is in flight returns the pending promise of the
  \<open>doConnect\<close> that made the attempt and changes nothing, so starts no attempt; a call
  made while the client is connected returns a resolved promise and changes nothing, and
  then no attempt is in flight.
\<close>

theorem one_attempt_in_flight:
  "let s = run rt evs initialClient
   in length (in_flight s) \<le> 1 \<and>
      (\<forall>c \<in> set (in_flight s).
         connect rt s = (Joined c, s) \<and> owner (attempts s ! c) = c \<and> doConnects s ! c = Pending) \<and>
      (client s \<noteq> None \<and> isConnected s \<longrightarrow>
         connect rt s = (ResolvedNow, s) \<and> in_flight s = [])"
proof -
  define s where "s = run rt evs initialClient"
  have i: "client_inv s" and t: "tracked s"
    using reachable [of rt evs] by (simp_all add: s_def)
  note fl = in_flight_last [OF i]
  from i have p: "pend_last (map result (attempts s)) (connectPromise s) (isConnected s)"
    and sh: "shape s" by (simp_all add: client_inv_def)
  have 1: "length (in_flight s) \<le> 1"
    by (simp add: fl split: option.splits)
  have 2: "connect rt s = (Joined c, s) \<and> owner (attempts s ! c) = c \<and> doConnects s ! c = Pending"
    if "c \<in> set (in_flight s)" for c
  proof -
    from that have cp: "connectPromise s = Some c"
      by (simp add: fl split: option.splits)
    with p have c: "c < length (attempts s)" and l: "last (map result (attempts s)) = Pending"
      and ne: "attempts s \<noteq> []" and d: "Suc c = length (attempts s)"
      by (auto simp: pend_last_def)
    from d have "length (attempts s) - 1 = c" by simp
    with ne l have "result (attempts s ! c) = Pending"
      by (simp add: last_map last_conv_nth)
    with t c have "doConnects s ! c = Pending"
      by (simp add: tracked_def track_def)
    with cp shape_at [OF sh c] show ?thesis
      by (simp add: connect_def)
  qed
  have 3: "connect rt s = (ResolvedNow, s) \<and> in_flight s = []"
    if "client s \<noteq> None \<and> isConnected s"
  proof -
    from that p have "connectPromise s = None"
      by (cases "connectPromise s") (simp_all add: pend_last_def)
    with that show ?thesis
      by (simp add: connect_def fl)
  qed
  from 1 2 3 show ?thesis
    unfolding s_def [symmetric] Let_def by blast
qed

theorem one_attempt_in_flight_witness:
  "0 \<in> set (in_flight (run demo_runtime [CallConnect] initialClient)) \<and>
   connect demo_runtime (run demo_runtime [CallConnect] initialClient) =
     (Joined 0, run demo_runtime [CallConnect] initialClient) \<and>
   client (run demo_runtime [CallConnect, OnConnect 0] initialClient) \<noteq> None \<and>
   isConnected (run demo_runtime [CallConnect, OnConnect 0] initialClient) \<and>
   connect demo_runtime (run demo_runtime [CallConnect, OnConnect 0] initialClient) =
     (ResolvedNow, run demo_runtime [CallConnect, OnConnect 0] initialClient)"
  using one_attempt_in_flight [of demo_runtime "[CallConnect]"]
    one_attempt_in_flight [of demo_runtime "[CallConnect, OnConnect 0]"]
  by (simp add: client_defs Let_def)

subsection \<open>What reaches the library\<close>

lemma qos0_simps [simp]:
  "qos0 (MqttConnect u opts)" "qos0 (SetTimeout c ms)" "qos0 (ClearTimeout c)" "qos0 (ClientEnd c)"
  "qos0 (ClientUnsubscribe c topic)"
  "qos0 (ClientSubscribe c topic q) \<longleftrightarrow> q = 0" "qos0 (ClientPublish c topic message q) \<longleftrightarrow> q = 0"
  by (simp_all add: qos0_def)

lemma qos_try_configs:
  "list_all qos0 (calls s) \<Longrightarrow> list_all qos0 (calls (try_configs d cs s))"
  by (cases cs) (simp_all add: finish_def connectToBroker_def)

lemma qos_connect: "list_all qos0 (calls s) \<Longrightarrow> list_all qos0 (calls (snd (connect rt s)))"
  by (auto simp: connect_def Let_def intro!: qos_try_configs split: option.splits)

lemma qos_end_client: "list_all qos0 (calls s) \<Longrightarrow> list_all qos0 (calls (end_client s))"
  by (simp add: end_client_def split: option.splits)

lemma qos_reject: "list_all qos0 (calls s) \<Longrightarrow> list_all qos0 (calls (reject c msg s))"
  by (auto simp: reject_def intro!: qos_try_configs)

lemma qos_resolve: "list_all qos0 (calls s) \<Longrightarrow> list_all qos0 (calls (resolve c s))"
  by (simp add: resolve_def finish_def setupMessageHandler_def split: option.splits)

lemma qos_message_handlers:
  "calls ((message_handler rt topic message ^^ n) s) = calls s"
  by (induction n) (simp_all add: message_handler_fields)

lemma qos_step: "list_all qos0 (calls s) \<Longrightarrow> list_all qos0 (calls (step rt ev s))"
proof (cases ev)
  case CallConnect
  then show "list_all qos0 (calls s) \<Longrightarrow> ?thesis" by (simp add: qos_connect)
next
  case (CallSubscribe topic callback)
  then show "list_all qos0 (calls s) \<Longrightarrow> ?thesis"
    using qos_connect [of s rt] by (cases "connect rt s") (simp add: call_subscribe_def)
next
  case (CallPublish topic message)
  then show "list_all qos0 (calls s) \<Longrightarrow> ?thesis"
    using qos_connect [of s rt] by (cases "connect rt s") (simp add: call_publish_def)
next
  case (CallUnsubscribe topic callback)
  then show "list_all qos0 (calls s) \<Longrightarrow> ?thesis"
    by (simp add: unsubscribe_def Let_def split: option.splits)
next
  case CallDisconnect
  then show "list_all qos0 (calls s) \<Longrightarrow> ?thesis"
    using qos_end_client [of s] by (simp add: disconnect_def split: option.splits)
next
  case (Resume k)
  then show "list_all qos0 (calls s) \<Longrightarrow> ?thesis"
    by (simp add: resume_def subscribe_connected_def publish_connected_def set_frame_def
        split: frame.splits promise.splits option.splits)
next
  case (Acknowledge k err)
  then show "list_all qos0 (calls s) \<Longrightarrow> ?thesis"
    by (simp add: acknowledge_def set_frame_def split: frame.splits option.splits)
next
  case (OnConnect c)
  then show "list_all qos0 (calls s) \<Longrightarrow> ?thesis"
    by (auto simp: on_connect_def clearTimeout_def intro!: qos_resolve)
next
  case (OnError c msg)
  then show "list_all qos0 (calls s) \<Longrightarrow> ?thesis"
    by (auto simp: on_error_def clearTimeout_def intro!: qos_reject qos_end_client)
next
  case (OnTimeout c)
  then show "list_all qos0 (calls s) \<Longrightarrow> ?thesis"
    by (auto simp: on_timeout_def intro!: qos_reject qos_end_client)
next
  case (OnClose c)
  then show "list_all qos0 (calls s) \<Longrightarrow> ?thesis" by (simp add: on_close_def)
next
  case (OnOffline c)
  then show "list_all qos0 (calls s) \<Longrightarrow> ?thesis" by (simp add: on_close_def)
next
  case (OnMessage c topic message)
  then show "list_all qos0 (calls s) \<Longrightarrow> ?thesis"
    by (simp add: on_message_def qos_message_handlers)
qed

lemma qos_run: "list_all qos0 (calls s) \<Longrightarrow> list_all qos0 (calls (run rt evs s))"
  by (induction evs arbitrary: s) (simp_all add: qos_step)

text \<open>
  C8. In every run of the client, every call of the library's \<open>subscribe\<close> and
  \<open>publish\<close> has \<open>qos: 0\<close>: those are the calls that \<open>subscribe\<close> makes for a topic
  without a list, and \<open>publish\<close> for every message, once the client is connected.
  \<open>publishButtonControl\<close> and \<open>publishMediaControl\<close> are calls of \<open>publish\<close>.
\<close>

theorem fire_and_forget:
  "(\<forall>call \<in> set (calls (run rt evs initialClient)). \<forall>q. qos_of call = Some q \<longrightarrow> q = 0) \<and>
   (client s = Some c \<and> isConnected s \<and> subscribers s topic = None \<longrightarrow>
      calls (subscribe_connected k topic callback s) = calls s @ [ClientSubscribe c topic 0]) \<and>
   (client s = Some c \<and> isConnected s \<longrightarrow>
      calls (publish_connected k topic message s) = calls s @ [ClientPublish c topic message 0]) \<and>
   publishButtonControl JSON_stringify rt now b s =
     step rt (CallPublish ''home/buttonControl''
       (JSON_stringify
          (JObj [(''activeButton'', JStr (button_key b)), (''timestamp'', JNum now)]))) s \<and>
   publishMediaControl JSON_stringify rt now b a v s =
     step rt (CallPublish ''home/mediaControl''
       (JSON_stringify
          (JObj ([(''button'', JStr (button_key b)), (''action'', JStr (action_name a))] @
                 (case v of None \<Rightarrow> [] | Some r \<Rightarrow> [(''value'', JNum r)]) @
                 [(''timestamp'', JNum now)])))) s"
proof -
  have "list_all qos0 (calls (run rt evs initialClient))"
    by (rule qos_run) (simp add: initialClient_def)
  then have "\<forall>call \<in> set (calls (run rt evs initialClient)). \<forall>q. qos_of call = Some q \<longrightarrow> q = 0"
    by (auto simp: list_all_iff qos0_def)
  then show ?thesis
    by (simp add: subscribe_connected_def publish_connected_def set_frame_def
        publishButtonControl_def publishMediaControl_def)
qed

theorem fire_and_forget_witness:
  "ClientSubscribe 0 ''home/buttonA'' 0 \<in> set (calls (run demo_runtime
      [CallSubscribe ''home/buttonA'' 7, OnConnect 0, Resume 0] initialClient)) \<and>
   qos_of (ClientSubscribe 0 ''home/buttonA'' 0) = Some 0 \<and>
   client (run demo_runtime [CallConnect, OnConnect 0] initialClient) = Some 0 \<and>
   isConnected (run demo_runtime [CallConnect, OnConnect 0] initialClient) \<and>
   subscribers (run demo_runtime [CallConnect, OnConnect 0] initialClient) ''home/buttonA'' = None \<and>
   calls (subscribe_connected 0 ''home/buttonA'' 7
            (run demo_runtime [CallConnect, OnConnect 0] initialClient)) =
     calls (run demo_runtime [CallConnect, OnConnect 0] initialClient) @
       [ClientSubscribe 0 ''home/buttonA'' 0] \<and>
   calls (publish_connected 0 ''home/buttonControl'' ''{}''
            (run demo_runtime [CallConnect, OnConnect 0] initialClient)) =
     calls (run demo_runtime [CallConnect, OnConnect 0] initialClient) @
       [ClientPublish 0 ''home/buttonControl'' ''{}'' 0]"
  using fire_and_forget
      [where rt = demo_runtime
        and evs = "[CallSubscribe ''home/buttonA'' 7, OnConnect 0, Resume 0]"
        and s = "run demo_runtime [CallConnect, OnConnect 0] initialClient" and c = 0
        and topic = "''home/buttonA''" and k = 0 and callback = 7
        and message = "''{}''"]
  by (simp add: client_defs Let_def)

subsection \<open>How an attempt is set up\<close>

lemma counted_cong:
  "counted s \<Longrightarrow> attempts s' = attempts s \<Longrightarrow> doConnects s' = doConnects s \<Longrightarrow>
     filter is_MqttConnect (calls s') = filter is_MqttConnect (calls s) \<Longrightarrow> counted s'"
  by (simp add: counted_def)

lemma armed_nth: "list_all armed xs \<Longrightarrow> i < length xs \<Longrightarrow> armed (xs ! i)"
  by (simp add: list_all_length)

lemma armed_ended: "armed a \<Longrightarrow> armed (a\<lparr> ended := True \<rparr>)"
  by (simp add: armed_def)

lemma armed_timer: "armed a \<Longrightarrow> result a \<noteq> Pending \<Longrightarrow> armed (a\<lparr> timer := t \<rparr>)"
  by (simp add: armed_def)

lemma armed_both: "armed a \<Longrightarrow> result a \<noteq> Pending \<Longrightarrow> armed (a\<lparr> timer := t, ended := True \<rparr>)"
  by (simp add: armed_def)

lemma counted_on_connect:
  assumes "client_inv s" "counted s"
  shows "counted (on_connect c s)"
proof (cases "c < length (attempts s) \<and> \<not> ended (attempts s ! c) \<and> \<not> connected_once (attempts s ! c)")
  case False
  with assms show ?thesis by (auto simp: on_connect_def)
next
  case True
  then have eq: "on_connect c s =
     s\<lparr> attempts := (attempts s)[c := (attempts s ! c)
            \<lparr> timer := None, connected_once := True, result := Fulfilled, handlers := 1 \<rparr>],
        calls := calls s @ [ClearTimeout c], isConnected := True,
        doConnects := (doConnects s)[c := Fulfilled], connectPromise := None \<rparr>"
    using on_connect_eq [OF assms(1)] by simp
  from assms(2) True have "armed (attempts s ! c)"
    by (simp add: counted_def armed_nth)
  then show ?thesis
    unfolding eq using assms(2) by (simp add: counted_def list_all_update armed_def)
qed

lemma counted_on_error:
  assumes "client_inv s" "counted s"
  shows "counted (on_error c msg s)"
proof (cases "c < length (attempts s)")
  case False
  with assms show ?thesis by (simp add: on_error_def)
next
  case True
  have n: "length (attempts s) - 1 < length (attempts s)" using True by simp
  from assms(2) True n have a: "armed (attempts s ! c)" "armed (attempts s ! (length (attempts s) - 1))"
    by (simp_all add: counted_def armed_nth)
  show ?thesis
  proof (cases "result (attempts s ! c) = Pending")
    case p: True
    with a show ?thesis
      unfolding on_error_eq [OF assms(1) True] using assms(2)
      by (simp add: counted_def list_all_update armed_def)
  next
    case False
    with a show ?thesis
      unfolding on_error_eq [OF assms(1) True] using assms(2) True n
      by (auto simp add: counted_def list_all_update armed_ended armed_timer armed_both
          nth_update_cases)
  qed
qed

lemma counted_on_timeout:
  assumes "client_inv s" "counted s"
  shows "counted (on_timeout c s)"
proof (cases "c < length (attempts s) \<and> timer (attempts s ! c) \<noteq> None")
  case False
  with assms show ?thesis by (auto simp: on_timeout_def)
next
  case True
  then have c: "c < length (attempts s)" and t: "timer (attempts s ! c) \<noteq> None" by simp_all
  have n: "length (attempts s) - 1 < length (attempts s)" using c by simp
  from assms(2) c n have a: "armed (attempts s ! c)" "armed (attempts s ! (length (attempts s) - 1))"
    by (simp_all add: counted_def armed_nth)
  show ?thesis
  proof (cases "result (attempts s ! c) = Pending")
    case True
    with a show ?thesis
      unfolding on_timeout_eq [OF assms(1) c t] using assms(2)
      by (simp add: counted_def list_all_update armed_def)
  next
    case False
    with a show ?thesis
      unfolding on_timeout_eq [OF assms(1) c t] using assms(2) c n
      by (auto simp add: counted_def list_all_update armed_ended armed_timer armed_both
          nth_update_cases)
  qed
qed

lemma counted_connect:
  assumes "counted s"
  shows "counted (snd (connect rt s))"
proof (cases "connectPromise s = None \<and> \<not> (client s \<noteq> None \<and> isConnected s)")
  case False
  with assms show ?thesis by (auto simp: connect_def split: option.splits)
next
  case True
  then show ?thesis
    using assms connect_start_eq [of s rt] by (simp add: counted_def armed_def configs_def)
qed

lemma counted_disconnect: "counted s \<Longrightarrow> counted (disconnect s)"
  by (auto simp: counted_def disconnect_def end_client_def list_all_update armed_ended armed_nth
      list_all_length nth_update_cases split: option.splits)

lemma counted_step:
  assumes "client_inv s" "counted s"
  shows "counted (step rt ev s)"
proof (cases ev)
  case CallConnect
  with assms show ?thesis by (simp add: counted_connect)
next
  case (CallSubscribe topic callback)
  with counted_connect [OF assms(2), of rt] show ?thesis
    by (cases "connect rt s") (simp add: call_subscribe_def counted_def)
next
  case (CallPublish topic message)
  with counted_connect [OF assms(2), of rt] show ?thesis
    by (cases "connect rt s") (simp add: call_publish_def counted_def)
next
  case (CallUnsubscribe topic callback)
  with assms(2) show ?thesis
    by (auto elim!: counted_cong simp: unsubscribe_def Let_def split: option.splits)
next
  case CallDisconnect
  with assms show ?thesis by (simp add: counted_disconnect)
next
  case (Resume k)
  with assms(2) show ?thesis
    by (auto elim!: counted_cong
        simp: resume_def subscribe_connected_def publish_connected_def set_frame_def
        split: frame.splits promise.splits option.splits)
next
  case (Acknowledge k err)
  with assms(2) show ?thesis
    by (auto elim!: counted_cong simp: acknowledge_def set_frame_def
        split: frame.splits option.splits)
next
  case (OnConnect c)
  with assms show ?thesis by (simp add: counted_on_connect)
next
  case (OnError c msg)
  with assms show ?thesis by (simp add: counted_on_error)
next
  case (OnTimeout c)
  with assms show ?thesis by (simp add: counted_on_timeout)
next
  case (OnClose c)
  with assms(2) show ?thesis by (simp add: on_close_def counted_def)
next
  case (OnOffline c)
  with assms(2) show ?thesis by (simp add: on_close_def counted_def)
next
  case (OnMessage c topic message)
  have "attempts ((message_handler rt topic message ^^ n) s) = attempts s \<and>
        doConnects ((message_handler rt topic message ^^ n) s) = doConnects s \<and>
        calls ((message_handler rt topic message ^^ n) s) = calls s" for n
    by (induction n) (simp_all add: message_handler_fields)
  with OnMessage assms(2) show ?thesis
    by (simp add: on_message_def counted_def)
qed

lemma reachable_counted: "counted (run rt evs initialClient)"
proof -
  have "client_inv s \<and> counted s \<Longrightarrow> counted (run rt evs s)" for s
    by (induction evs arbitrary: s) (simp_all add: inv_step counted_step)
  moreover have "counted initialClient"
    by (simp add: counted_def initialClient_def)
  ultimately show ?thesis
    using inv_init by blast
qed

lemma in_flight_iff:
  "c \<in> set (in_flight s) \<longleftrightarrow> c < length (attempts s) \<and> result (attempts s ! c) = Pending"
  by (auto simp: in_flight_def)

lemma connect_started:
  assumes "connect rt s = (Started d, s1)"
  shows "connectPromise s = None \<and> \<not> (client s \<noteq> None \<and> isConnected s) \<and>
         d = length (doConnects s) \<and> s1 = snd (connect rt s)"
proof -
  from assms have s1: "s1 = snd (connect rt s)" by simp
  from assms have "fst (connect rt s) = Started d" by simp
  then have "connectPromise s = None \<and> \<not> (client s \<noteq> None \<and> isConnected s) \<and>
         d = length (doConnects s)"
    by (cases "connectPromise s") (simp_all add: connect_def Let_def split: if_splits)
  with s1 show ?thesis by simp
qed

lemma start_calls:
  assumes i: "client_inv s" and st: "connect rt s = (Started d, s1)"
  shows "calls s1 = calls s @
            [MqttConnect (broker_url (hd (configs rt d))) (broker_options (hd (configs rt d))),
             SetTimeout d 10000] \<and> in_flight s1 = [d]"
proof -
  from connect_started [OF st]
  have cp: "connectPromise s = None" and nc: "\<not> (client s \<noteq> None \<and> isConnected s)"
    and d: "d = length (doConnects s)" and s1: "s1 = snd (connect rt s)"
    by simp_all
  note eq = connect_start_eq [OF cp nc, of rt]
  have c: "calls s1 = calls s @
            [MqttConnect (NEXT_PUBLIC_MQTT_BROKER_URL rt)
              (broker_options (hd (configs rt (length (doConnects s))))),
             SetTimeout (length (attempts s)) 10000]"
    unfolding s1 eq by simp
  have p: "connectPromise s1 = Some (length (doConnects s))"
    unfolding s1 eq by simp
  from i have "client_inv s1" unfolding s1 by (rule inv_connect)
  from in_flight_last [OF this] p d have "in_flight s1 = [d]" by simp
  moreover from i have "length (doConnects s) = length (attempts s)" by (simp add: client_inv_def shape_def)
  ultimately show ?thesis using c d by (simp add: configs_def)
qed

lemma failure_settles:
  assumes i: "client_inv s" and k: "counted s" and fl: "c \<in> set (in_flight s)"
  shows "timer (attempts s ! c) = Some 10000 \<and>
         reconnectPeriod (broker_options (cfg (attempts s ! c))) = 0 \<and>
         (\<forall>ev. ev = OnError c msg \<or> ev = OnTimeout c \<longrightarrow>
             doConnects (step rt ev s) ! c = Rejected ''All connection attempts failed'' \<and>
             connectPromise (step rt ev s) = None \<and>
             in_flight (step rt ev s) = [] \<and>
             filter is_MqttConnect (calls (step rt ev s)) = filter is_MqttConnect (calls s))"
proof -
  from fl have c: "c < length (attempts s)" and p: "result (attempts s ! c) = Pending"
    by (simp_all add: in_flight_iff)
  from k c have "armed (attempts s ! c)" by (simp add: counted_def armed_nth)
  with p have a: "timer (attempts s ! c) = Some 10000"
    "reconnectPeriod (broker_options (cfg (attempts s ! c))) = 0"
    by (simp_all add: armed_def)
  from i c have cd: "c < length (doConnects s)" by (simp add: client_inv_def shape_def)
  have e: "doConnects (on_error c msg s) ! c = Rejected ''All connection attempts failed'' \<and>
        connectPromise (on_error c msg s) = None \<and>
        filter is_MqttConnect (calls (on_error c msg s)) = filter is_MqttConnect (calls s)"
    unfolding on_error_eq [OF i c] using p cd by simp
  have "client_inv (on_error c msg s)" using i by (rule inv_on_error)
  from in_flight_last [OF this] e have e': "in_flight (on_error c msg s) = []" by simp
  from a have tm: "timer (attempts s ! c) \<noteq> None" by simp
  have o: "doConnects (on_timeout c s) ! c = Rejected ''All connection attempts failed'' \<and>
        connectPromise (on_timeout c s) = None \<and>
        filter is_MqttConnect (calls (on_timeout c s)) = filter is_MqttConnect (calls s)"
    unfolding on_timeout_eq [OF i c tm] using p cd by simp
  have "client_inv (on_timeout c s)" using i by (rule inv_on_timeout)
  from in_flight_last [OF this] o have o': "in_flight (on_timeout c s) = []" by simp
  have "doConnects (step rt ev s) ! c = Rejected ''All connection attempts failed'' \<and>
             connectPromise (step rt ev s) = None \<and>
             in_flight (step rt ev s) = [] \<and>
             filter is_MqttConnect (calls (step rt ev s)) = filter is_MqttConnect (calls s)"
    if "ev = OnError c msg \<or> ev = OnTimeout c" for ev
    using that
  proof
    assume "ev = OnError c msg"
    with e e' show ?thesis by simp
  next
    assume "ev = OnTimeout c"
    with o o' show ?thesis by simp
  qed
  with a show ?thesis by blast
qed

text \<open>
  C7. There is one config. In every state a run can reach there are as many
  \<open>mqtt.connect\<close> calls as calls of \<open>doConnect\<close>; a \<open>connect\<close> that starts makes one
  \<open>mqtt.connect\<close> call and arms one timer of 10000 ms; an attempt in flight was made with
  \<open>reconnectPeriod: 0\<close>, and when it fails, by an \<open>error\<close> event or by its timer, the
  promise of its \<open>doConnect\<close>, which \<open>connect\<close> awaits and rethrows, is rejected with
  \<open>All connection attempts failed\<close>, no attempt is in flight, and no \<open>mqtt.connect\<close>
  call was added.
\<close>

theorem single_attempt_no_retry:
  "length (configs rt n) = 1 \<and>
   (let s = run rt evs initialClient
    in length (filter is_MqttConnect (calls s)) = length (doConnects s) \<and>
       (\<forall>d s1. connect rt s = (Started d, s1) \<longrightarrow>
          calls s1 = calls s @
            [MqttConnect (broker_url (hd (configs rt d))) (broker_options (hd (configs rt d))),
             SetTimeout d 10000] \<and>
          in_flight s1 = [d]) \<and>
       (\<forall>c \<in> set (in_flight s).
          timer (attempts s ! c) = Some 10000 \<and>
          reconnectPeriod (broker_options (cfg (attempts s ! c))) = 0 \<and>
          (\<forall>ev. ev = OnError c msg \<or> ev = OnTimeout c \<longrightarrow>
             doConnects (step rt ev s) ! c = Rejected ''All connection attempts failed'' \<and>
             connectPromise (step rt ev s) = None \<and>
             in_flight (step rt ev s) = [] \<and>
             filter is_MqttConnect (calls (step rt ev s)) = filter is_MqttConnect (calls s))))"
proof -
  have i: "client_inv (run rt evs initialClient)"
    using reachable [of rt evs] by simp
  have k: "counted (run rt evs initialClient)"
    by (rule reachable_counted)
  have 0: "length (configs rt n) = 1" by (simp add: configs_def)
  have 1: "length (filter is_MqttConnect (calls (run rt evs initialClient))) =
      length (doConnects (run rt evs initialClient))"
    using k by (simp add: counted_def)
  have 2: "\<forall>d s1. connect rt (run rt evs initialClient) = (Started d, s1) \<longrightarrow>
          calls s1 = calls (run rt evs initialClient) @
            [MqttConnect (broker_url (hd (configs rt d))) (broker_options (hd (configs rt d))),
             SetTimeout d 10000] \<and>
          in_flight s1 = [d]"
    by (intro allI impI) (rule start_calls [OF i])
  have 3: "\<forall>c \<in> set (in_flight (run rt evs initialClient)).
          timer (attempts (run rt evs initialClient) ! c) = Some 10000 \<and>
          reconnectPeriod (broker_options (cfg (attempts (run rt evs initialClient) ! c))) = 0 \<and>
          (\<forall>ev. ev = OnError c msg \<or> ev = OnTimeout c \<longrightarrow>
             doConnects (step rt ev (run rt evs initialClient)) ! c =
               Rejected ''All connection attempts failed'' \<and>
             connectPromise (step rt ev (run rt evs initialClient)) = None \<and>
             in_flight (step rt ev (run rt evs initialClient)) = [] \<and>
             filter is_MqttConnect (calls (step rt ev (run rt evs initialClient))) =
               filter is_MqttConnect (calls (run rt evs initialClient)))"
    by (intro ballI) (rule failure_settles [OF i k])
  show ?thesis
    unfolding Let_def by (rule conjI [OF 0 conjI [OF 1 conjI [OF 2 3]]])
qed

theorem single_attempt_no_retry_witness:
  "connect demo_runtime initialClient = (Started 0, run demo_runtime [CallConnect] initialClient) \<and>
   0 \<in> set (in_flight (run demo_runtime [CallConnect] initialClient)) \<and>
   timer (attempts (run demo_runtime [CallConnect] initialClient) ! 0) = Some 10000 \<and>
   doConnects (step demo_runtime (OnTimeout 0) (run demo_runtime [CallConnect] initialClient)) ! 0 =
     Rejected ''All connection attempts failed'' \<and>
   doConnects (step demo_runtime (OnError 0 ''refused'')
       (run demo_runtime [CallConnect] initialClient)) ! 0 =
     Rejected ''All connection attempts failed'' \<and>
   in_flight (step demo_runtime (OnTimeout 0) (run demo_runtime [CallConnect] initialClient)) = []"
  using single_attempt_no_retry [of demo_runtime 0 "[]" "''refused''"]
    single_attempt_no_retry [of demo_runtime 0 "[CallConnect]" "''refused''"]
  by (simp add: client_defs Let_def)

subsection \<open>Listeners\<close>

lemma subscribers_try_configs [simp]: "subscribers (try_configs d cs s) = subscribers s"
  by (cases cs) (simp_all add: finish_def connectToBroker_def)

lemma subscribers_connect [simp]: "subscribers (snd (connect rt s)) = subscribers s"
  by (simp add: connect_def Let_def split: option.splits)

lemma subscribers_end_client [simp]: "subscribers (end_client s) = subscribers s"
  by (simp add: end_client_def split: option.splits)

lemma subscribers_reject [simp]: "subscribers (reject c msg s) = subscribers s"
  by (simp add: reject_def)

lemma subscribers_resolve [simp]: "subscribers (resolve c s) = subscribers s"
  by (simp add: resolve_def finish_def setupMessageHandler_def split: option.splits)

lemma subscribers_message_handlers [simp]:
  "subscribers ((message_handler rt topic message ^^ n) s) = subscribers s"
  by (induction n) (simp_all add: message_handler_fields)

lemma order_kept_same [simp]: "order_kept old old"
  by (simp add: order_kept_def)

lemma listeners_step: "order_kept (listeners s t) (listeners (step rt ev s) t)"
proof (cases ev)
  case CallConnect
  then show ?thesis by (simp add: listeners_def)
next
  case (CallSubscribe topic callback)
  then show ?thesis
    using subscribers_connect [of rt s]
    by (cases "connect rt s") (simp add: listeners_def call_subscribe_def)
next
  case (CallPublish topic message)
  then show ?thesis
    using subscribers_connect [of rt s]
    by (cases "connect rt s") (simp add: listeners_def call_publish_def)
next
  case (CallUnsubscribe topic callback)
  then show ?thesis
    by (auto simp: listeners_def unsubscribe_def Let_def order_kept_def split: option.splits)
next
  case CallDisconnect
  then show ?thesis
    by (simp add: listeners_def disconnect_def order_kept_def split: option.splits)
next
  case (Resume k)
  then show ?thesis
    by (auto simp: listeners_def resume_def subscribe_connected_def publish_connected_def
        set_frame_def order_kept_def split: frame.splits promise.splits option.splits)
next
  case (Acknowledge k err)
  then show ?thesis
    by (auto simp: listeners_def acknowledge_def set_frame_def order_kept_def
        split: frame.splits option.splits)
next
  case (OnConnect c)
  then show ?thesis by (simp add: listeners_def on_connect_def clearTimeout_def)
next
  case (OnError c msg)
  then show ?thesis by (simp add: listeners_def on_error_def clearTimeout_def)
next
  case (OnTimeout c)
  then show ?thesis by (simp add: listeners_def on_timeout_def)
next
  case (OnClose c)
  then show ?thesis by (simp add: listeners_def on_close_def)
next
  case (OnOffline c)
  then show ?thesis by (simp add: listeners_def on_close_def)
next
  case (OnMessage c topic message)
  then show ?thesis by (simp add: listeners_def on_message_def)
qed

lemma delivery:
  assumes "client_inv s" "c < length (attempts s)" "result (attempts s ! c) = Fulfilled"
  shows "on_message rt c topic message s =
     s\<lparr> delivered := delivered s @
           map (\<lambda>callback. (callback, toString rt message, topic)) (listeners s topic) \<rparr>"
proof -
  from assms have "good (attempts s ! c)" by (simp add: client_inv_def good_nth)
  with assms(3) have "handlers (attempts s ! c) = 1" by (simp add: good_def)
  with assms(2) show ?thesis
    by (simp add: on_message_def message_handler_def listeners_def split: option.splits)
qed

text \<open>
  C1. In every state a run can reach, a message from the broker on a connected client calls
  the callbacks of the topic's list, each once, in the order of the list, with the payload
  as a string and the topic, and changes nothing else; with no callback for the topic the
  state stays as it is. Every step keeps the order of a topic's list: a callback is added at
  the end, or one is taken out, or the list is emptied.
\<close>

theorem messages_reach_listeners:
  "let s = run rt evs initialClient
   in (\<forall>c < length (attempts s). result (attempts s ! c) = Fulfilled \<longrightarrow>
         on_message rt c topic message s =
           s\<lparr> delivered := delivered s @
                 map (\<lambda>callback. (callback, toString rt message, topic)) (listeners s topic) \<rparr> \<and>
         (listeners s topic = [] \<longrightarrow> on_message rt c topic message s = s)) \<and>
      order_kept (listeners s topic) (listeners (step rt ev s) topic)"
proof -
  have i: "client_inv (run rt evs initialClient)"
    using reachable [of rt evs] by simp
  have 1: "\<forall>c < length (attempts (run rt evs initialClient)).
      result (attempts (run rt evs initialClient) ! c) = Fulfilled \<longrightarrow>
         on_message rt c topic message (run rt evs initialClient) =
           (run rt evs initialClient)\<lparr> delivered := delivered (run rt evs initialClient) @
                 map (\<lambda>callback. (callback, toString rt message, topic))
                   (listeners (run rt evs initialClient) topic) \<rparr> \<and>
         (listeners (run rt evs initialClient) topic = [] \<longrightarrow>
            on_message rt c topic message (run rt evs initialClient) = run rt evs initialClient)"
  proof (intro allI impI)
    fix c
    assume c: "c < length (attempts (run rt evs initialClient))"
      and f: "result (attempts (run rt evs initialClient) ! c) = Fulfilled"
    note d = delivery [OF i c f, of rt topic message]
    then show "on_message rt c topic message (run rt evs initialClient) =
           (run rt evs initialClient)\<lparr> delivered := delivered (run rt evs initialClient) @
                 map (\<lambda>callback. (callback, toString rt message, topic))
                   (listeners (run rt evs initialClient) topic) \<rparr> \<and>
         (listeners (run rt evs initialClient) topic = [] \<longrightarrow>
            on_message rt c topic message (run rt evs initialClient) = run rt evs initialClient)"
      by simp
  qed
  show ?thesis
    unfolding Let_def by (rule conjI [OF 1 listeners_step])
qed

theorem messages_reach_listeners_witness:
  "0 < length (attempts (run demo_runtime
      [CallSubscribe ''t'' 1, OnConnect 0, Resume 0, Acknowledge 0 None, CallSubscribe ''t'' 2,
       Resume 1] initialClient)) \<and>
   result (attempts (run demo_runtime
      [CallSubscribe ''t'' 1, OnConnect 0, Resume 0, Acknowledge 0 None, CallSubscribe ''t'' 2,
       Resume 1] initialClient) ! 0) = Fulfilled \<and>
   delivered (on_message demo_runtime 0 ''t'' [104, 105] (run demo_runtime
      [CallSubscribe ''t'' 1, OnConnect 0, Resume 0, Acknowledge 0 None, CallSubscribe ''t'' 2,
       Resume 1] initialClient)) = [(1, toString demo_runtime [104, 105], ''t''), (2, toString demo_runtime [104, 105], ''t'')] \<and>
   on_message demo_runtime 0 ''u'' [104, 105] (run demo_runtime
      [CallSubscribe ''t'' 1, OnConnect 0, Resume 0, Acknowledge 0 None, CallSubscribe ''t'' 2,
       Resume 1] initialClient) =
     run demo_runtime
      [CallSubscribe ''t'' 1, OnConnect 0, Resume 0, Acknowledge 0 None, CallSubscribe ''t'' 2,
       Resume 1] initialClient"
  using messages_reach_listeners [of demo_runtime
      "[CallSubscribe ''t'' 1, OnConnect 0, Resume 0, Acknowledge 0 None, CallSubscribe ''t'' 2,
        Resume 1]" "''t''" "[104, 105]"]
    messages_reach_listeners [of demo_runtime
      "[CallSubscribe ''t'' 1, OnConnect 0, Resume 0, Acknowledge 0 None, CallSubscribe ''t'' 2,
        Resume 1]" "''u''" "[104, 105]"]
  by (simp add: client_defs demo_runtime_def Let_def)

end
